theory Spec2Isabelle
  imports Complex_Main "HOL-Library.Multiset" "HOL-Library.Sublist"
begin

section \<open>Data model\<close>

text \<open>
  The analytics of \<^verbatim>\<open>wikipedia_client.py\<close> work on the revision dictionaries of the
  MediaWiki API. A dictionary key that may be missing is an \<open>option\<close> field. The key
  \<^verbatim>\<open>sizediff\<close> has three states, because \<^verbatim>\<open>get_page_revisions\<close> stores Python's
  \<^verbatim>\<open>None\<close> under it for the oldest revision of a batch.

  A parsed timestamp (\<^verbatim>\<open>datetime\<close>, timezone UTC) is the number of whole seconds since
  0001-01-01T00:00:00Z. Python floats are modelled as exact real numbers.
\<close>

type_synonym datetime = int

datatype sizediff_field = Missing | Null | Delta int

record revision =
  revid :: nat
  timestamp :: "string option"
  user :: "string option"
  size_bytes :: "int option"
  sizediff :: sizediff_field
  comment :: "string option"
  parsed_timestamp :: "datetime option"

datatype error = TypeError | KeyError | Insufficient_data

section \<open>get\_page\_revisions: the size-change annotation\<close>

text \<open>
  \<^verbatim>\<open>for i, rev in enumerate(revisions):
      if i < len(revisions) - 1: rev['sizediff'] = rev['size'] - revisions[i + 1]['size']
      else: rev['sizediff'] = None\<close>
  A missing \<^verbatim>\<open>size\<close> key raises KeyError, which the function turns into its error result.
\<close>

fun add_sizediff :: "revision list \<Rightarrow> revision list option" where
  "add_sizediff [] = Some []"
| "add_sizediff [r] = Some [r\<lparr>sizediff := Null\<rparr>]"
| "add_sizediff (r # nxt # revs) =
     (case (size_bytes r, size_bytes nxt) of
        (Some s, Some s') \<Rightarrow>
          (case add_sizediff (nxt # revs) of
             None \<Rightarrow> None
           | Some rest \<Rightarrow> Some (r\<lparr>sizediff := Delta (s - s')\<rparr> # rest))
      | _ \<Rightarrow> None)"

section \<open>Significance scoring\<close>

subsection \<open>Revert proximity\<close>

text \<open>
  The body of the loop \<^verbatim>\<open>for i in range(index - 5, index)\<close> of
  \<^verbatim>\<open>_calculate_revert_score\<close>, as a recursion over the remaining indices. A
  \<^verbatim>\<open>datetime\<close> object is always truthy, so \<^verbatim>\<open>not next_time\<close> holds exactly when
  the key is missing.
\<close>

fun revert_scan :: "revision \<Rightarrow> revision list \<Rightarrow> int list \<Rightarrow> real" where
  "revert_scan revision all_revisions [] = 0"
| "revert_scan revision all_revisions (i # rest) =
     (if i < 0 \<or> i \<ge> int (length all_revisions) then revert_scan revision all_revisions rest
      else
        let next_rev = all_revisions ! nat i;
            rev_size = (case size_bytes revision of None \<Rightarrow> 0 | Some s \<Rightarrow> s);
            next_size = (case size_bytes next_rev of None \<Rightarrow> 0 | Some s \<Rightarrow> s)
        in case (parsed_timestamp next_rev, parsed_timestamp revision) of
             (Some next_time, Some rev_time) \<Rightarrow>
               let time_diff = \<bar>real_of_int (next_time - rev_time)\<bar>;
                   size_diff = \<bar>next_size - rev_size\<bar>
               in if time_diff < 3600 \<and> size_diff < 50
                  then max 0 (1 - time_diff / 3600)
                  else revert_scan revision all_revisions rest
           | _ \<Rightarrow> revert_scan revision all_revisions rest)"

definition calculate_revert_score :: "revision \<Rightarrow> revision list \<Rightarrow> int \<Rightarrow> real" where
  "calculate_revert_score revision all_revisions index =
     revert_scan revision all_revisions [index - 5 .. index - 1]"

subsection \<open>Edit-war density\<close>

text \<open>The counting loop of \<^verbatim>\<open>_calculate_edit_war_score\<close>, with its counter.\<close>

fun count_rapid_edits :: "datetime \<Rightarrow> revision list \<Rightarrow> nat \<Rightarrow> nat" where
  "count_rapid_edits rev_time [] rapid_edits = rapid_edits"
| "count_rapid_edits rev_time (other_rev # rest) rapid_edits =
     (case parsed_timestamp other_rev of
        None \<Rightarrow> count_rapid_edits rev_time rest rapid_edits
      | Some other_time \<Rightarrow>
          if \<bar>real_of_int (other_time - rev_time)\<bar> \<le> 86400
          then count_rapid_edits rev_time rest (rapid_edits + 1)
          else count_rapid_edits rev_time rest rapid_edits)"

definition calculate_edit_war_score :: "revision \<Rightarrow> revision list \<Rightarrow> int \<Rightarrow> real" where
  "calculate_edit_war_score revision all_revisions index =
     (case parsed_timestamp revision of
        None \<Rightarrow> 0
      | Some rev_time \<Rightarrow> min (real (count_rapid_edits rev_time all_revisions 0) / 20) 1)"

subsection \<open>Discussion keywords\<close>

text \<open>
  \<^verbatim>\<open>str.lower\<close> on the ASCII letters; \<^verbatim>\<open>pattern in comment\<close> is the search for a
  contiguous substring.
\<close>

definition lower_char :: "char \<Rightarrow> char" where
  "lower_char c =
     (case map_of (zip ''ABCDEFGHIJKLMNOPQRSTUVWXYZ'' ''abcdefghijklmnopqrstuvwxyz'') c of
        None \<Rightarrow> c
      | Some l \<Rightarrow> l)"

definition lower :: "string \<Rightarrow> string" where
  "lower s = map lower_char s"

fun contains :: "string \<Rightarrow> string \<Rightarrow> bool" where
  "contains [] pattern = (pattern = [])"
| "contains (c # cs) pattern = (prefix pattern (c # cs) \<or> contains cs pattern)"

definition discussion_patterns :: "string list" where
  "discussion_patterns =
     [''talk page'', ''discuss'', ''see talk'', ''talk:'', ''consensus'',
      ''dispute'', ''controversial'', ''revert'', ''vandalism'', ''rv'']"

definition discussion_score :: "revision \<Rightarrow> real" where
  "discussion_score revision =
     (let comment_l = lower (case comment revision of None \<Rightarrow> [] | Some c \<Rightarrow> c)
      in min (real (length (filter (contains comment_l) discussion_patterns)) * 0.2) 1)"

subsection \<open>The weighted score\<close>

text \<open>
  \<^verbatim>\<open>abs(revision.get('sizediff', 0))\<close>: the default covers a missing key only; on a
  stored \<^verbatim>\<open>None\<close> the call of \<^verbatim>\<open>abs\<close> raises TypeError.
\<close>

definition size_change :: "revision \<Rightarrow> error + int" where
  "size_change revision =
     (case sizediff revision of
        Missing \<Rightarrow> Inr 0
      | Null \<Rightarrow> Inl TypeError
      | Delta d \<Rightarrow> Inr \<bar>d\<bar>)"

definition normalized_size_change :: "int \<Rightarrow> int \<Rightarrow> real" where
  "normalized_size_change change article_size =
     min (real_of_int change / max (real_of_int article_size * 0.1) 100) 1"

definition experience_factor :: "revision \<Rightarrow> (string \<rightharpoonup> int) \<Rightarrow> real" where
  "experience_factor revision user_edit_counts =
     (let usr = (case user revision of None \<Rightarrow> [] | Some u \<Rightarrow> u);
          user_edits = (case user_edit_counts usr of None \<Rightarrow> 1 | Some n \<Rightarrow> n)
      in min 1 (5 / real_of_int (max user_edits 1)))"

definition calculate_significance_score ::
  "revision \<Rightarrow> revision list \<Rightarrow> int \<Rightarrow> int \<Rightarrow> (string \<rightharpoonup> int) \<Rightarrow> error + real" where
  "calculate_significance_score revision all_revisions index article_size user_edit_counts =
     (case size_change revision of
        Inl e \<Rightarrow> Inl e
      | Inr change \<Rightarrow>
          Inr (min (0.30 * normalized_size_change change article_size
                    + 0.25 * calculate_revert_score revision all_revisions index
                    + 0.20 * experience_factor revision user_edit_counts
                    + 0.15 * discussion_score revision
                    + 0.10 * calculate_edit_war_score revision all_revisions index) 1))"

subsection \<open>The factor breakdown\<close>

record significance_factors =
  size_change_bytes :: int
  normalized_size_impact :: real
  user_experience_level :: int
  has_discussion_keywords :: bool
  edit_comment :: string
  factor_timestamp :: "string option"
  factor_user :: string

definition get_significance_factors ::
  "revision \<Rightarrow> revision list \<Rightarrow> int \<Rightarrow> int \<Rightarrow> (string \<rightharpoonup> int) \<Rightarrow> error + significance_factors" where
  "get_significance_factors revision all_revisions index article_size user_edit_counts =
     (case size_change revision of
        Inl e \<Rightarrow> Inl e
      | Inr change \<Rightarrow>
          let usr = (case user revision of None \<Rightarrow> [] | Some u \<Rightarrow> u);
              cmt = (case comment revision of None \<Rightarrow> [] | Some c \<Rightarrow> c)
          in Inr \<lparr>size_change_bytes = (case sizediff revision of Delta d \<Rightarrow> d | _ \<Rightarrow> 0),
                  normalized_size_impact = normalized_size_change change article_size,
                  user_experience_level = (case user_edit_counts usr of None \<Rightarrow> 1 | Some n \<Rightarrow> n),
                  has_discussion_keywords =
                    list_ex (contains (lower cmt)) [''talk'', ''discuss'', ''revert'', ''dispute''],
                  edit_comment = cmt,
                  factor_timestamp = timestamp revision,
                  factor_user = usr\<rparr>)"

section \<open>The date-range filter\<close>

text \<open>
  Both operations start with the same loop. \<^verbatim>\<open>datetime.fromisoformat\<close> is Python's
  library function: it is a parameter here, \<open>None\<close> where it raises. Every exception in
  the loop body (a missing \<^verbatim>\<open>timestamp\<close> key, a timestamp or a bound that does not
  parse) is caught there and skips the revision, as \<^verbatim>\<open>continue\<close> does. A retained
  revision gets its parsed time stored under \<^verbatim>\<open>parsed_timestamp\<close>, in the dictionary
  of the fetched list itself, so the loop returns that list too.
\<close>

definition replace_Z :: "string \<Rightarrow> string" where
  "replace_Z s = concat (map (\<lambda>c. if c = CHR ''Z'' then ''+00:00'' else [c]) s)"

definition after_start :: "(string \<Rightarrow> datetime option) \<Rightarrow> string option \<Rightarrow> datetime \<Rightarrow> bool" where
  "after_start fromisoformat start_datetime rev_time =
     (case start_datetime of
        None \<Rightarrow> True
      | Some s \<Rightarrow>
          if s = [] then True
          else (case fromisoformat (replace_Z s) of
                  None \<Rightarrow> False
                | Some start_time \<Rightarrow> \<not> rev_time < start_time))"

definition before_end :: "(string \<Rightarrow> datetime option) \<Rightarrow> string option \<Rightarrow> datetime \<Rightarrow> bool" where
  "before_end fromisoformat end_datetime rev_time =
     (case end_datetime of
        None \<Rightarrow> True
      | Some s \<Rightarrow>
          if s = [] then True
          else (case fromisoformat (replace_Z s) of
                  None \<Rightarrow> False
                | Some end_time \<Rightarrow> \<not> rev_time > end_time))"

definition retained_time ::
  "(string \<Rightarrow> datetime option) \<Rightarrow> string option \<Rightarrow> string option \<Rightarrow> revision \<Rightarrow> datetime option" where
  "retained_time fromisoformat start_datetime end_datetime r =
     (case timestamp r of
        None \<Rightarrow> None
      | Some ts \<Rightarrow>
          (case fromisoformat (replace_Z ts) of
             None \<Rightarrow> None
           | Some rev_time \<Rightarrow>
               if after_start fromisoformat start_datetime rev_time
                  \<and> before_end fromisoformat end_datetime rev_time
               then Some rev_time else None))"

fun filter_revisions ::
  "(string \<Rightarrow> datetime option) \<Rightarrow> string option \<Rightarrow> string option \<Rightarrow> revision list
     \<Rightarrow> revision list \<times> revision list" where
  "filter_revisions fromisoformat start_datetime end_datetime [] = ([], [])"
| "filter_revisions fromisoformat start_datetime end_datetime (r # rest) =
     (case filter_revisions fromisoformat start_datetime end_datetime rest of
        (rest', filtered) \<Rightarrow>
          (case retained_time fromisoformat start_datetime end_datetime r of
             None \<Rightarrow> (r # rest', filtered)
           | Some rev_time \<Rightarrow>
               (r\<lparr>parsed_timestamp := Some rev_time\<rparr> # rest',
                r\<lparr>parsed_timestamp := Some rev_time\<rparr> # filtered)))"

section \<open>get\_significant\_revisions\<close>

text \<open>
  Python's \<^verbatim>\<open>round(x, n)\<close> rounds to the nearest multiple of \<open>10\<^sup>-\<^sup>n\<close>, a tie to the
  even one. \<^verbatim>\<open>xs[:limit]\<close> counts a negative \<^verbatim>\<open>limit\<close> from the end of the list.
\<close>

definition round_half_even :: "real \<Rightarrow> int" where
  "round_half_even x =
     (let f = \<lfloor>x\<rfloor>; d = x - of_int f
      in if d < 1 / 2 then f else if d > 1 / 2 then f + 1 else if even f then f else f + 1)"

definition py_round :: "real \<Rightarrow> nat \<Rightarrow> real" where
  "py_round x n = of_int (round_half_even (x * 10 ^ n)) / 10 ^ n"

definition slice_to :: "int \<Rightarrow> 'a list \<Rightarrow> 'a list" where
  "slice_to limit xs =
     (if limit \<ge> 0 then take (nat limit) xs else take (length xs - nat (- limit)) xs)"

record scored_revision =
  scored_rev :: revision
  significance_score :: real
  factors :: significance_factors

record significance_report =
  total_revisions_analyzed :: nat
  significant_revisions_found :: nat
  min_significance_threshold :: real
  top_revisions :: "scored_revision list"

text \<open>The loop that counts the edits of every named user of the filtered set.\<close>

fun count_user_edits :: "revision list \<Rightarrow> (string \<rightharpoonup> int) \<Rightarrow> (string \<rightharpoonup> int)" where
  "count_user_edits [] user_edit_counts = user_edit_counts"
| "count_user_edits (r # rest) user_edit_counts =
     count_user_edits rest
       (case user r of
          None \<Rightarrow> user_edit_counts
        | Some u \<Rightarrow>
            if u = [] then user_edit_counts
            else user_edit_counts
                   (u \<mapsto> (case user_edit_counts u of None \<Rightarrow> 0 | Some n \<Rightarrow> n) + 1))"

text \<open>
  The scoring loop over \<^verbatim>\<open>enumerate(filtered_revisions)\<close>. An exception of the scorer
  leaves the loop: the operation's handler turns it into the error result.
\<close>

fun score_revisions ::
  "revision list \<Rightarrow> int \<Rightarrow> (string \<rightharpoonup> int) \<Rightarrow> real \<Rightarrow> (nat \<times> revision) list
     \<Rightarrow> error + scored_revision list" where
  "score_revisions filtered current_size counts min_significance [] = Inr []"
| "score_revisions filtered current_size counts min_significance ((i, r) # rest) =
     (case calculate_significance_score r filtered (int i) current_size counts of
        Inl e \<Rightarrow> Inl e
      | Inr score \<Rightarrow>
          if score \<ge> min_significance then
            (case get_significance_factors r filtered (int i) current_size counts of
               Inl e \<Rightarrow> Inl e
             | Inr fs \<Rightarrow>
                 (case score_revisions filtered current_size counts min_significance rest of
                    Inl e \<Rightarrow> Inl e
                  | Inr scored \<Rightarrow>
                      Inr (\<lparr>scored_rev = r, significance_score = py_round score 3,
                             factors = fs\<rparr> # scored)))
          else score_revisions filtered current_size counts min_significance rest)"

definition current_size_of :: "revision list \<Rightarrow> int" where
  "current_size_of filtered = (case size_bytes (hd filtered) of None \<Rightarrow> 1000 | Some s \<Rightarrow> s)"

definition get_significant_revisions ::
  "(string \<Rightarrow> datetime option) \<Rightarrow> revision list \<Rightarrow> string option \<Rightarrow> string option \<Rightarrow> int \<Rightarrow> real
     \<Rightarrow> revision list \<times> (error + significance_report)" where
  "get_significant_revisions fromisoformat all_revisions start_datetime end_datetime limit
       min_significance =
     (case filter_revisions fromisoformat start_datetime end_datetime all_revisions of
        (all_revisions', filtered) \<Rightarrow>
          (all_revisions',
           if length filtered < 2 then Inl Insufficient_data
           else
             (case score_revisions filtered (current_size_of filtered)
                     (count_user_edits filtered Map.empty) min_significance
                     (enumerate 0 filtered) of
                Inl e \<Rightarrow> Inl e
              | Inr scored \<Rightarrow>
                  Inr \<lparr>total_revisions_analyzed = length filtered,
                       significant_revisions_found = length scored,
                       min_significance_threshold = min_significance,
                       top_revisions =
                         slice_to limit
                           (sort_key (\<lambda>x. - significance_score x) scored)\<rparr>)))"

section \<open>Calendar labels\<close>

text \<open>
  The calendar of Python's \<^verbatim>\<open>datetime\<close>: day 1 of the proleptic Gregorian ordinal is
  0001-01-01, a Monday. \<open>ord2ymd\<close> follows the library's conversion of an ordinal to
  year, month and day; \<open>ymd2ord\<close> is the conversion back.
\<close>

definition toordinal :: "datetime \<Rightarrow> int" where
  "toordinal t = t div 86400 + 1"

definition weekday :: "datetime \<Rightarrow> int" where
  "weekday t = (toordinal t + 6) mod 7"

definition is_leap :: "int \<Rightarrow> bool" where
  "is_leap y = (y mod 4 = 0 \<and> (y mod 100 \<noteq> 0 \<or> y mod 400 = 0))"

definition days_in_month :: "int list" where
  "days_in_month = [- 1, 31, 28, 31, 30, 31, 30, 31, 31, 30, 31, 30, 31]"

definition days_before_month :: "int list" where
  "days_before_month = [- 1, 0, 31, 59, 90, 120, 151, 181, 212, 243, 273, 304, 334]"

definition ord2ymd :: "int \<Rightarrow> int \<times> int \<times> int" where
  "ord2ymd ordinal =
     (let n = ordinal - 1;
          n400 = n div 146097; n = n mod 146097;
          n100 = n div 36524; n = n mod 36524;
          n4 = n div 1461; n = n mod 1461;
          n1 = n div 365; n = n mod 365;
          year = n400 * 400 + 1 + n100 * 100 + n4 * 4 + n1
      in if n1 = 4 \<or> n100 = 4 then (year - 1, 12, 31)
         else
           let leapyear = (n1 = 3 \<and> (n4 \<noteq> 24 \<or> n100 = 3));
               month = (n + 50) div 32;
               preceding = days_before_month ! nat month
                           + (if month > 2 \<and> leapyear then 1 else 0)
           in if preceding > n
              then (year, month - 1,
                    n - (preceding - (days_in_month ! nat (month - 1)
                                      + (if month - 1 = 2 \<and> leapyear then 1 else 0))) + 1)
              else (year, month, n - preceding + 1))"

definition ymd2ord :: "int \<Rightarrow> int \<Rightarrow> int \<Rightarrow> int" where
  "ymd2ord y m d =
     (y - 1) * 365 + (y - 1) div 4 - (y - 1) div 100 + (y - 1) div 400
     + (days_before_month ! nat m + (if m > 2 \<and> is_leap y then 1 else 0)) + d"

definition digit_char :: "int \<Rightarrow> char" where
  "digit_char d = ''0123456789'' ! nat (d mod 10)"

definition pad2 :: "int \<Rightarrow> string" where
  "pad2 n = [digit_char (n div 10), digit_char n]"

definition pad4 :: "int \<Rightarrow> string" where
  "pad4 n = [digit_char (n div 1000), digit_char (n div 100), digit_char (n div 10), digit_char n]"

text \<open>\<^verbatim>\<open>strftime('%Y-%m-%d')\<close> and \<^verbatim>\<open>strftime('%Y-%m')\<close>, the year written with four digits.\<close>

definition strftime_Ymd :: "datetime \<Rightarrow> string" where
  "strftime_Ymd t =
     (case ord2ymd (toordinal t) of (y, m, d) \<Rightarrow> pad4 y @ ''-'' @ pad2 m @ ''-'' @ pad2 d)"

definition strftime_Ym :: "datetime \<Rightarrow> string" where
  "strftime_Ym t = (case ord2ymd (toordinal t) of (y, m, d) \<Rightarrow> pad4 y @ ''-'' @ pad2 m)"

text \<open>The chain of comparisons that makes the window key of a revision.\<close>

definition window_key :: "string \<Rightarrow> datetime \<Rightarrow> string" where
  "window_key window_size t =
     (if window_size = ''day'' then strftime_Ymd t
      else if window_size = ''week'' then strftime_Ymd (t - 86400 * weekday t) @ ''-week''
      else if window_size = ''month'' then strftime_Ym t
      else strftime_Ymd t)"

section \<open>analyze\_edit\_activity\<close>

subsection \<open>Grouping into windows\<close>

text \<open>
  \<^verbatim>\<open>grouped_activity\<close> is a \<^verbatim>\<open>defaultdict\<close>: an association list in the order in
  which the keys were first used, a new key starting from the default entry.
\<close>

record window_data =
  edit_count :: nat
  editors :: "string set"
  revisions :: "revision list"

definition new_window :: window_data where
  "new_window = \<lparr>edit_count = 0, editors = {}, revisions = []\<rparr>"

definition author_of :: "revision \<Rightarrow> string" where
  "author_of r = (case user r of None \<Rightarrow> ''Unknown'' | Some u \<Rightarrow> u)"

definition record_edit :: "revision \<Rightarrow> window_data \<Rightarrow> window_data" where
  "record_edit r w =
     \<lparr>edit_count = edit_count w + 1,
      editors = insert (author_of r) (editors w),
      revisions = revisions w @ [r]\<rparr>"

fun update_window ::
  "string \<Rightarrow> revision \<Rightarrow> (string \<times> window_data) list \<Rightarrow> (string \<times> window_data) list" where
  "update_window k r [] = [(k, record_edit r new_window)]"
| "update_window k r ((k', w) # rest) =
     (if k' = k then (k', record_edit r w) # rest else (k', w) # update_window k r rest)"

text \<open>
  The grouping loop. \<^verbatim>\<open>rev['parsed_timestamp']\<close> raises KeyError on a revision without
  the key; the filter has stored it on every revision it passes on.
\<close>

fun group_revisions ::
  "string \<Rightarrow> revision list \<Rightarrow> (string \<times> window_data) list
     \<Rightarrow> error + (string \<times> window_data) list" where
  "group_revisions window_size [] grouped_activity = Inr grouped_activity"
| "group_revisions window_size (r # rest) grouped_activity =
     (case parsed_timestamp r of
        None \<Rightarrow> Inl KeyError
      | Some t \<Rightarrow>
          group_revisions window_size rest
            (update_window (window_key window_size t) r grouped_activity))"

subsection \<open>Statistics and spikes\<close>

text \<open>\<^verbatim>\<open>statistics.mean\<close> and \<^verbatim>\<open>statistics.stdev\<close> (the sample standard deviation).\<close>

definition mean :: "nat list \<Rightarrow> real" where
  "mean xs = real (sum_list xs) / real (length xs)"

definition stdev :: "nat list \<Rightarrow> real" where
  "stdev xs = sqrt ((\<Sum>x\<leftarrow>xs. (real x - mean xs)\<^sup>2) / real (length xs - 1))"

definition z_score :: "nat \<Rightarrow> real \<Rightarrow> real \<Rightarrow> real" where
  "z_score n m sd = (if sd > 0 then (real n - m) / sd else 0)"

record spike =
  window :: string
  spike_edit_count :: nat
  editor_count :: nat
  edit_z_score :: real
  editor_z_score :: real
  significance :: string
  spike_editors :: "string set"
  sample_revisions :: "revision list"

fun detect_spikes ::
  "real \<Rightarrow> real \<Rightarrow> real \<Rightarrow> real \<Rightarrow> real \<Rightarrow> (string \<times> window_data) list \<Rightarrow> spike list" where
  "detect_spikes edit_mean edit_stdev editor_mean editor_stdev z_threshold [] = []"
| "detect_spikes edit_mean edit_stdev editor_mean editor_stdev z_threshold
       ((key, d) # rest) =
     (let edit_z = z_score (edit_count d) edit_mean edit_stdev;
          editor_z = z_score (card (editors d)) editor_mean editor_stdev;
          spikes = detect_spikes edit_mean edit_stdev editor_mean editor_stdev z_threshold rest
      in if edit_z \<ge> z_threshold \<or> editor_z \<ge> z_threshold
         then \<lparr>window = key,
               spike_edit_count = edit_count d,
               editor_count = card (editors d),
               edit_z_score = py_round edit_z 2,
               editor_z_score = py_round editor_z 2,
               significance = (if max edit_z editor_z \<ge> 3 then ''high'' else ''moderate''),
               spike_editors = editors d,
               sample_revisions = take 5 (revisions d)\<rparr> # spikes
         else spikes)"

record count_statistics =
  stat_mean :: real
  stat_stdev :: real
  stat_min :: nat
  stat_max :: nat

record activity_report =
  total_windows :: nat
  activity_revisions_analyzed :: nat
  edit_statistics :: count_statistics
  editor_statistics :: count_statistics
  spikes_detected :: nat
  spikes :: "spike list"

definition spike_statistics ::
  "real \<Rightarrow> nat \<Rightarrow> (string \<times> window_data) list \<Rightarrow> error + activity_report" where
  "spike_statistics z_threshold n_filtered grouped_activity =
     (let edit_counts = map (\<lambda>(k, d). edit_count d) grouped_activity;
          editor_counts = map (\<lambda>(k, d). card (editors d)) grouped_activity
      in if length edit_counts < 3 then Inl Insufficient_data
         else
           let edit_mean = mean edit_counts;
               edit_stdev = (if length edit_counts > 1 then stdev edit_counts else 0);
               editor_mean = mean editor_counts;
               editor_stdev = (if length editor_counts > 1 then stdev editor_counts else 0);
               found = detect_spikes edit_mean edit_stdev editor_mean editor_stdev z_threshold
                         grouped_activity;
               sorted_spikes =
                 sort_key (\<lambda>x. - max (edit_z_score x) (editor_z_score x)) found
           in Inr \<lparr>total_windows = length grouped_activity,
                   activity_revisions_analyzed = n_filtered,
                   edit_statistics =
                     \<lparr>stat_mean = py_round edit_mean 2, stat_stdev = py_round edit_stdev 2,
                      stat_min = Min (set edit_counts), stat_max = Max (set edit_counts)\<rparr>,
                   editor_statistics =
                     \<lparr>stat_mean = py_round editor_mean 2, stat_stdev = py_round editor_stdev 2,
                      stat_min = Min (set editor_counts), stat_max = Max (set editor_counts)\<rparr>,
                   spikes_detected = length sorted_spikes,
                   spikes = sorted_spikes\<rparr>)"

definition analyze_edit_activity ::
  "(string \<Rightarrow> datetime option) \<Rightarrow> revision list \<Rightarrow> string option \<Rightarrow> string option \<Rightarrow> string
     \<Rightarrow> real \<Rightarrow> revision list \<times> (error + activity_report)" where
  "analyze_edit_activity fromisoformat all_revisions start_datetime end_datetime window_size
       z_threshold =
     (case filter_revisions fromisoformat start_datetime end_datetime all_revisions of
        (all_revisions', filtered) \<Rightarrow>
          (all_revisions',
           case group_revisions window_size filtered [] of
             Inl e \<Rightarrow> Inl e
           | Inr grouped_activity \<Rightarrow>
               spike_statistics z_threshold (length filtered) grouped_activity))"

section \<open>Notions of the specification\<close>

text \<open>
  The words in which the properties below are stated: the time gap and the size
  difference between two revisions, the candidates of the revert scan, and the first
  candidate that qualifies. \<open>probable_revert\<close> has the strict bounds of the code,
  \<open>probable_revert_le\<close> the inclusive bounds.
\<close>

definition size_or_zero :: "revision \<Rightarrow> int" where
  "size_or_zero r = (case size_bytes r of None \<Rightarrow> 0 | Some s \<Rightarrow> s)"

definition time_gap :: "revision \<Rightarrow> revision \<Rightarrow> real option" where
  "time_gap a b =
     (case (parsed_timestamp a, parsed_timestamp b) of
        (Some ta, Some tb) \<Rightarrow> Some \<bar>real_of_int (ta - tb)\<bar>
      | _ \<Rightarrow> None)"

definition probable_revert :: "revision \<Rightarrow> revision \<Rightarrow> bool" where
  "probable_revert revision cand =
     (case time_gap cand revision of
        None \<Rightarrow> False
      | Some gap \<Rightarrow> gap < 3600 \<and> \<bar>size_or_zero cand - size_or_zero revision\<bar> < 50)"

definition probable_revert_le :: "revision \<Rightarrow> revision \<Rightarrow> bool" where
  "probable_revert_le revision cand =
     (case time_gap cand revision of
        None \<Rightarrow> False
      | Some gap \<Rightarrow> gap \<le> 3600 \<and> \<bar>size_or_zero cand - size_or_zero revision\<bar> \<le> 50)"

definition revert_value :: "revision \<Rightarrow> revision \<Rightarrow> real" where
  "revert_value revision cand =
     (case time_gap cand revision of None \<Rightarrow> 0 | Some gap \<Rightarrow> max 0 (1 - gap / 3600))"

definition revert_candidates :: "revision list \<Rightarrow> int \<Rightarrow> int list" where
  "revert_candidates all_revisions index =
     [max 0 (index - 5) .. min (index - 1) (int (length all_revisions) - 1)]"

definition first_revert ::
  "(revision \<Rightarrow> revision \<Rightarrow> bool) \<Rightarrow> revision \<Rightarrow> revision list \<Rightarrow> int \<Rightarrow> real" where
  "first_revert qualifies revision all_revisions index =
     (case find (\<lambda>j. qualifies revision (all_revisions ! nat j))
             (revert_candidates all_revisions index) of
        None \<Rightarrow> 0
      | Some j \<Rightarrow> revert_value revision (all_revisions ! nat j))"

definition within_day :: "revision \<Rightarrow> revision \<Rightarrow> bool" where
  "within_day other revision =
     (case time_gap other revision of None \<Rightarrow> False | Some gap \<Rightarrow> gap \<le> 86400)"

text \<open>The window of a revision, and what the grouping loop keeps true of its windows.\<close>

definition window_of :: "string \<Rightarrow> revision \<Rightarrow> string" where
  "window_of window_size r =
     (case parsed_timestamp r of None \<Rightarrow> [] | Some t \<Rightarrow> window_key window_size t)"

definition windows_ok :: "string \<Rightarrow> revision list \<Rightarrow> (string \<times> window_data) list \<Rightarrow> bool" where
  "windows_ok window_size seen g =
     (distinct (map fst g) \<and> set (map fst g) = window_of window_size ` set seen
      \<and> (\<forall>k d. map_of g k = Some d \<longrightarrow>
             revisions d = filter (\<lambda>r. window_of window_size r = k) seen
             \<and> edit_count d = length (revisions d)
             \<and> editors d = author_of ` set (revisions d)))"

section \<open>Example inputs\<close>

text \<open>
  For the examples, \<^verbatim>\<open>datetime.fromisoformat\<close> on the strings that the timestamps of
  the MediaWiki API become, \<^verbatim>\<open>YYYY-MM-DDTHH:MM:SS+00:00\<close>; every other string counts as
  one that does not parse.
\<close>

definition digit_val :: "char \<Rightarrow> int option" where
  "digit_val c = map_of (zip ''0123456789'' [0, 1, 2, 3, 4, 5, 6, 7, 8, 9]) c"

fun number :: "string \<Rightarrow> int \<Rightarrow> int option" where
  "number [] acc = Some acc"
| "number (c # cs) acc =
     (case digit_val c of None \<Rightarrow> None | Some d \<Rightarrow> number cs (10 * acc + d))"

definition fromisoformat_utc :: "string \<Rightarrow> datetime option" where
  "fromisoformat_utc s =
     (if length s = 25 \<and> s ! 4 = CHR ''-'' \<and> s ! 7 = CHR ''-'' \<and> s ! 10 = CHR ''T''
         \<and> s ! 13 = CHR '':'' \<and> s ! 16 = CHR '':'' \<and> drop 19 s = ''+00:00''
      then
        (case (number (take 4 s) 0, number (take 2 (drop 5 s)) 0, number (take 2 (drop 8 s)) 0,
               number (take 2 (drop 11 s)) 0, number (take 2 (drop 14 s)) 0,
               number (take 2 (drop 17 s)) 0) of
           (Some y, Some m, Some d, Some h, Some mi, Some sec) \<Rightarrow>
             if 1 \<le> y \<and> 1 \<le> m \<and> m \<le> 12 \<and> 1 \<le> d
                \<and> d \<le> days_in_month ! nat m + (if m = 2 \<and> is_leap y then 1 else 0)
                \<and> h < 24 \<and> mi < 60 \<and> sec < 60
             then Some ((ymd2ord y m d - 1) * 86400 + h * 3600 + mi * 60 + sec)
             else None
         | _ \<Rightarrow> None)
      else None)"

text \<open>A revision as the API sends it, and one that the filter has stamped.\<close>

definition mk_rev :: "nat \<Rightarrow> string \<Rightarrow> string option \<Rightarrow> int \<Rightarrow> sizediff_field \<Rightarrow> string \<Rightarrow> revision" where
  "mk_rev n ts u sz d c =
     \<lparr>revid = n, timestamp = Some ts, user = u, size_bytes = Some sz, sizediff = d,
      comment = Some c, parsed_timestamp = None\<rparr>"

definition stamped :: "nat \<Rightarrow> datetime \<Rightarrow> int \<Rightarrow> revision" where
  "stamped n t sz =
     \<lparr>revid = n, timestamp = None, user = None, size_bytes = Some sz, sizediff = Missing,
      comment = None, parsed_timestamp = Some t\<rparr>"

definition stamp :: "datetime \<Rightarrow> revision \<Rightarrow> revision" where
  "stamp t r = r\<lparr>parsed_timestamp := Some t\<rparr>"

text \<open>
  Three revisions of a page, newest first, as \<^verbatim>\<open>get_page_revisions\<close> returns them:
  the oldest one carries \<^verbatim>\<open>None\<close> as its size change.
\<close>

definition ex_fetched :: "revision list" where
  "ex_fetched =
     [mk_rev 1 ''2024-01-03T15:00:00Z'' None 100000 (Delta 1) [],
      mk_rev 2 ''2024-01-03T13:00:00Z'' (Some ''Ann'') 99999 (Delta 2) [],
      mk_rev 3 ''2024-01-02T10:00:00Z'' (Some ''Ann'') 99997 Null []]"

definition ex_start :: "string option" where
  "ex_start = Some ''2024-01-03T00:00:00Z''"

definition ex_filtered :: "revision list" where
  "ex_filtered = [stamp 63839890800 (ex_fetched ! 0), stamp 63839883600 (ex_fetched ! 1)]"

text \<open>What the filter loop leaves in the dictionary of a fetched revision.\<close>

definition annotated ::
  "(string \<Rightarrow> datetime option) \<Rightarrow> string option \<Rightarrow> string option \<Rightarrow> revision \<Rightarrow> revision" where
  "annotated fromisoformat start_datetime end_datetime r =
     (case retained_time fromisoformat start_datetime end_datetime r of
        None \<Rightarrow> r
      | Some t \<Rightarrow> stamp t r)"

definition ex_all :: "revision list" where
  "ex_all = ex_filtered @ [stamp 63839786400 (ex_fetched ! 2)]"

text \<open>The labels of the windows that a result flags, and the two counts of every window.\<close>

definition spike_windows :: "error + activity_report \<Rightarrow> string list" where
  "spike_windows result = (case result of Inl e \<Rightarrow> [] | Inr rep \<Rightarrow> map window (spikes rep))"

definition window_counts :: "(string \<times> window_data) list \<Rightarrow> (string \<times> nat \<times> nat) list" where
  "window_counts g = map (\<lambda>(k, d). (k, edit_count d, card (editors d))) g"

text \<open>Six revisions on three days: three edits by three authors, two by two, one by one.\<close>

definition ex_activity :: "revision list" where
  "ex_activity =
     [mk_rev 1 ''2024-01-03T15:00:00Z'' (Some ''Ann'') 1060 (Delta 10) [],
      mk_rev 2 ''2024-01-03T13:00:00Z'' (Some ''Bob'') 1050 (Delta 10) [],
      mk_rev 3 ''2024-01-03T11:00:00Z'' (Some ''Cy'') 1040 (Delta 10) [],
      mk_rev 4 ''2024-01-02T10:00:00Z'' (Some ''Ann'') 1030 (Delta 10) [],
      mk_rev 5 ''2024-01-02T09:00:00Z'' (Some ''Bob'') 1020 (Delta 10) [],
      mk_rev 6 ''2024-01-01T08:00:00Z'' (Some ''Ann'') 1010 Null []]"

definition ex_activity_stamped :: "revision list" where
  "ex_activity_stamped =
     [stamp 63839890800 (ex_activity ! 0), stamp 63839883600 (ex_activity ! 1),
      stamp 63839876400 (ex_activity ! 2), stamp 63839786400 (ex_activity ! 3),
      stamp 63839782800 (ex_activity ! 4), stamp 63839692800 (ex_activity ! 5)]"

definition ex_activity_grouped :: "(string \<times> window_data) list" where
  "ex_activity_grouped =
     [(''2024-01-03'',
       \<lparr>edit_count = 3, editors = {''Ann'', ''Bob'', ''Cy''},
        revisions = take 3 ex_activity_stamped\<rparr>),
      (''2024-01-02'',
       \<lparr>edit_count = 2, editors = {''Ann'', ''Bob''},
        revisions = take 2 (drop 3 ex_activity_stamped)\<rparr>),
      (''2024-01-01'',
       \<lparr>edit_count = 1, editors = {''Ann''},
        revisions = drop 5 ex_activity_stamped\<rparr>)]"

text \<open>The two z-scores of a window among the windows \<open>g\<close>.\<close>

definition edit_z :: "(string \<times> window_data) list \<Rightarrow> window_data \<Rightarrow> real" where
  "edit_z g d =
     z_score (edit_count d) (mean (map (\<lambda>(k, d). edit_count d) g))
       (stdev (map (\<lambda>(k, d). edit_count d) g))"

definition editor_z :: "(string \<times> window_data) list \<Rightarrow> window_data \<Rightarrow> real" where
  "editor_z g d =
     z_score (card (editors d)) (mean (map (\<lambda>(k, d). card (editors d)) g))
       (stdev (map (\<lambda>(k, d). card (editors d)) g))"

text \<open>
  The spike that the report holds for a window: the label, the two counts, the two
  z-scores rounded to 2 decimals, the severity, the authors and at most 5 revisions.
  A window reaches the threshold when one of its z-scores does; the spikes are ordered
  by the larger of their rounded z-scores.
\<close>

definition spike_of :: "(string \<times> window_data) list \<Rightarrow> string \<times> window_data \<Rightarrow> spike" where
  "spike_of g kd =
     \<lparr>window = fst kd,
      spike_edit_count = edit_count (snd kd),
      editor_count = card (editors (snd kd)),
      edit_z_score = py_round (edit_z g (snd kd)) 2,
      editor_z_score = py_round (editor_z g (snd kd)) 2,
      significance =
        (if 3 \<le> max (edit_z g (snd kd)) (editor_z g (snd kd)) then ''high'' else ''moderate''),
      spike_editors = editors (snd kd),
      sample_revisions = take 5 (revisions (snd kd))\<rparr>"

definition reaches :: "real \<Rightarrow> (string \<times> window_data) list \<Rightarrow> string \<times> window_data \<Rightarrow> bool" where
  "reaches z g kd = (z \<le> edit_z g (snd kd) \<or> z \<le> editor_z g (snd kd))"

definition spike_key :: "spike \<Rightarrow> real" where
  "spike_key x = max (edit_z_score x) (editor_z_score x)"

text \<open>
  The score of the revision at a position of the filtered sequence, as the ranking
  computes it (0 stands for a score that is not computed), the reported pairs of
  revision and rounded score, and the revision identifiers of a result in its order.
\<close>

definition raw_score :: "revision list \<Rightarrow> nat \<Rightarrow> real" where
  "raw_score filtered i =
     (case calculate_significance_score (filtered ! i) filtered (int i)
             (current_size_of filtered) (count_user_edits filtered Map.empty) of
        Inl e \<Rightarrow> 0
      | Inr score \<Rightarrow> score)"

definition scored_pairs :: "scored_revision list \<Rightarrow> (revision \<times> real) list" where
  "scored_pairs scored = map (\<lambda>x. (scored_rev x, significance_score x)) scored"

definition ranked_ids :: "error + significance_report \<Rightarrow> nat list" where
  "ranked_ids result =
     (case result of Inl e \<Rightarrow> [] | Inr rep \<Rightarrow> map (\<lambda>x. revid (scored_rev x)) (top_revisions rep))"

text \<open>The score of an enumerated revision, 0 standing for a score that is not computed.\<close>

definition score_at :: "revision list \<Rightarrow> int \<Rightarrow> (string \<rightharpoonup> int) \<Rightarrow> nat \<times> revision \<Rightarrow> real" where
  "score_at filtered sz counts ir =
     (case calculate_significance_score (snd ir) filtered (int (fst ir)) sz counts of
        Inl e \<Rightarrow> 0 | Inr score \<Rightarrow> score)"

section \<open>Properties of the scorer\<close>

lemma normalized_size_change_bounds:
  "0 \<le> change \<Longrightarrow>
     0 \<le> normalized_size_change change article_size
     \<and> normalized_size_change change article_size \<le> 1"
  by (simp add: normalized_size_change_def min_def max_def)

lemma revert_scan_bounds:
  "0 \<le> revert_scan revision all_revisions js \<and> revert_scan revision all_revisions js \<le> 1"
  by (induction js) (auto simp: Let_def split: option.splits)

lemma experience_factor_bounds:
  "0 \<le> experience_factor r m \<and> experience_factor r m \<le> 1"
  by (simp add: experience_factor_def Let_def min_def max_def split: option.splits)

lemma discussion_score_bounds: "0 \<le> discussion_score r \<and> discussion_score r \<le> 1"
  by (simp add: discussion_score_def Let_def min_def)

lemma edit_war_bounds:
  "0 \<le> calculate_edit_war_score r rs i \<and> calculate_edit_war_score r rs i \<le> 1"
  by (simp add: calculate_edit_war_score_def min_def split: option.splits)

lemma size_change_nonneg: "size_change r = Inr c \<Longrightarrow> 0 \<le> c"
  by (auto simp: size_change_def split: sizediff_field.splits)

lemma size_change_Inl: "size_change r = Inl e \<longleftrightarrow> e = TypeError \<and> sizediff r = Null"
  by (auto simp: size_change_def split: sizediff_field.splits)

text \<open>
  C2. Whatever the revision, the revision sequence, the index, the document size and the
  map of edit counts are, a score that the scorer returns lies between 0 and 1. The
  scorer returns a score unless the revision stores \<^verbatim>\<open>None\<close> as its size change; then
  it raises TypeError and returns nothing.
\<close>

theorem significance_score_in_unit_interval:
  "case calculate_significance_score revision all_revisions index article_size user_edit_counts of
     Inr score \<Rightarrow> 0 \<le> score \<and> score \<le> 1
   | Inl e \<Rightarrow> e = TypeError \<and> sizediff revision = Null"
proof (cases "size_change revision")
  case (Inl e)
  then show ?thesis
    using size_change_Inl [of revision e] by (simp add: calculate_significance_score_def)
next
  case (Inr c)
  have "0 \<le> normalized_size_change c article_size"
    using normalized_size_change_bounds [OF size_change_nonneg [OF Inr]] by simp
  moreover have "0 \<le> calculate_revert_score revision all_revisions index"
    using revert_scan_bounds by (simp add: calculate_revert_score_def)
  moreover have "0 \<le> experience_factor revision user_edit_counts"
    using experience_factor_bounds by simp
  moreover have "0 \<le> discussion_score revision"
    using discussion_score_bounds by simp
  moreover have "0 \<le> calculate_edit_war_score revision all_revisions index"
    using edit_war_bounds by simp
  ultimately show ?thesis
    using Inr by (simp add: calculate_significance_score_def)
qed

text \<open>A revision with an empty comment, scored against a document of size 0.\<close>

theorem significance_score_in_unit_interval_witness:
  "\<exists>score.
     calculate_significance_score (mk_rev 7 ''2024-01-03T15:00:00Z'' None 0 (Delta (- 2000)) [])
       [] 0 0 Map.empty = Inr score
     \<and> 0 \<le> score \<and> score \<le> 1"
proof -
  let ?r = "mk_rev 7 ''2024-01-03T15:00:00Z'' None 0 (Delta (- 2000)) []"
  have "sizediff ?r \<noteq> Null" by (simp add: mk_rev_def)
  then show ?thesis
    using significance_score_in_unit_interval [of ?r "[]" 0 0 Map.empty]
    by (cases "calculate_significance_score ?r [] 0 0 Map.empty") auto
qed

section \<open>Properties of the date-range filter\<close>

lemma filter_revisions_parsed:
  "r \<in> set (snd (filter_revisions p s e rs)) \<Longrightarrow> parsed_timestamp r \<noteq> None"
  by (induction rs arbitrary: r) (auto split: prod.splits option.splits)

lemma parse_ex:
  "fromisoformat_utc (replace_Z ''2024-01-03T15:00:00Z'') = Some 63839890800"
  "fromisoformat_utc (replace_Z ''2024-01-03T13:00:00Z'') = Some 63839883600"
  "fromisoformat_utc (replace_Z ''2024-01-02T10:00:00Z'') = Some 63839786400"
  "fromisoformat_utc (replace_Z ''2024-01-03T00:00:00Z'') = Some 63839836800"
  by (simp_all add: fromisoformat_utc_def replace_Z_def digit_val_def ymd2ord_def
        days_before_month_def days_in_month_def is_leap_def)

lemma ex_filter:
  "filter_revisions fromisoformat_utc ex_start None ex_fetched =
     ([stamp 63839890800 (ex_fetched ! 0), stamp 63839883600 (ex_fetched ! 1), ex_fetched ! 2],
      ex_filtered)"
  by (simp add: ex_fetched_def ex_filtered_def ex_start_def mk_rev_def stamp_def
        retained_time_def after_start_def before_end_def parse_ex)

lemma ex_filter_all:
  "filter_revisions fromisoformat_utc None None ex_fetched =
     (ex_filtered @ [stamp 63839786400 (ex_fetched ! 2)],
      ex_filtered @ [stamp 63839786400 (ex_fetched ! 2)])"
  by (simp add: ex_fetched_def ex_filtered_def mk_rev_def stamp_def retained_time_def
        after_start_def before_end_def parse_ex)

section \<open>Properties of the revert-proximity score\<close>

lemma revert_scan_find:
  "revert_scan revision revs js =
     (case find (\<lambda>j. probable_revert revision (revs ! nat j))
             (filter (\<lambda>j. 0 \<le> j \<and> j < int (length revs)) js) of
        None \<Rightarrow> 0
      | Some j \<Rightarrow> revert_value revision (revs ! nat j))"
proof (induction js)
  case Nil
  show ?case by simp
next
  case (Cons j js)
  show ?case
  proof (cases "j < 0 \<or> j \<ge> int (length revs)")
    case True
    then show ?thesis using Cons by auto
  next
    case False
    then show ?thesis using Cons
      by (auto simp: probable_revert_def revert_value_def time_gap_def size_or_zero_def Let_def
               split: option.splits)
  qed
qed

lemma clip_upto:
  "filter (\<lambda>j. 0 \<le> j \<and> j < n) [a .. b] = [max 0 a .. min b (n - 1)]"
proof (rule sorted_distinct_set_unique)
  show "sorted (filter (\<lambda>j. 0 \<le> j \<and> j < n) [a .. b])" by (simp add: sorted_wrt_filter)
  show "set (filter (\<lambda>j. 0 \<le> j \<and> j < n) [a .. b]) = set [max 0 a .. min b (n - 1)]" by auto
qed simp_all

text \<open>
  C3, as stated, with the inclusive bounds \<open>\<le> 3600\<close> seconds and \<open>\<le> 50\<close> bytes. The
  target (index 1) and the revision before it in the list (index 0) are 10 seconds and
  exactly 50 bytes apart: under the inclusive bounds the score would be
  \<open>1 - 10/3600\<close>; the code, whose bounds are strict, returns 0.
\<close>

theorem revert_score_inclusive_bounds_counterexample:
  "calculate_revert_score (stamped 2 1000 1000) [stamped 1 1010 1050, stamped 2 1000 1000] 1 = 0
   \<and> first_revert probable_revert_le (stamped 2 1000 1000)
        [stamped 1 1010 1050, stamped 2 1000 1000] 1 = 359 / 360"
  by (simp add: calculate_revert_score_def first_revert_def revert_candidates_def
        probable_revert_le_def revert_value_def time_gap_def size_or_zero_def stamped_def
        upto.simps)

text \<open>
  C3, amended. The revert-proximity score of a revision at \<open>index\<close> is decided by the
  candidates at the indices \<open>index - 5\<close> to \<open>index - 1\<close> that exist, in this order. A
  candidate qualifies when both timestamps are known, the time gap is below 3600 seconds
  and the sizes differ by less than 50 bytes. The score is \<open>max 0 (1 - gap / 3600)\<close> for
  the first candidate that qualifies, and 0 when none does.
\<close>

theorem revert_score_is_first_strict_candidate:
  "calculate_revert_score revision all_revisions index =
     first_revert probable_revert revision all_revisions index"
  unfolding calculate_revert_score_def first_revert_def revert_candidates_def
  by (simp add: revert_scan_find clip_upto)

text \<open>
  The candidate at index 0 is 50 bytes away and does not qualify; the one at index 1,
  1800 seconds and 49 bytes away, does.
\<close>

theorem revert_score_is_first_strict_candidate_witness:
  "calculate_revert_score (stamped 3 1000 1000)
     [stamped 1 2800 1050, stamped 2 2800 1049, stamped 3 1000 1000] 2 = 1 / 2"
  using revert_score_is_first_strict_candidate
    [of "stamped 3 1000 1000" "[stamped 1 2800 1050, stamped 2 2800 1049, stamped 3 1000 1000]" 2]
  by (simp add: first_revert_def revert_candidates_def probable_revert_def revert_value_def
        time_gap_def size_or_zero_def stamped_def upto.simps)

section \<open>Properties of the edit-war score\<close>

lemma count_rapid_edits_filter:
  "count_rapid_edits t revs n =
     n + length (filter (\<lambda>r. case parsed_timestamp r of None \<Rightarrow> False
                               | Some u \<Rightarrow> \<bar>real_of_int (u - t)\<bar> \<le> 86400) revs)"
  by (induction revs arbitrary: n) (auto split: option.splits)

lemma edit_war_score_count:
  assumes "parsed_timestamp revision = Some t"
  shows "calculate_edit_war_score revision revs index =
           min (real (card {j. j < length revs \<and> within_day (revs ! j) revision}) / 20) 1"
proof -
  have "(\<lambda>r. case parsed_timestamp r of None \<Rightarrow> False
               | Some u \<Rightarrow> \<bar>real_of_int (u - t)\<bar> \<le> 86400) = (\<lambda>r. within_day r revision)"
    using assms by (auto simp: within_day_def time_gap_def fun_eq_iff split: option.splits)
  then show ?thesis
    using assms
    by (simp add: calculate_edit_war_score_def count_rapid_edits_filter length_filter_conv_card)
qed

text \<open>
  C7. For the revision at position \<open>i\<close> of the filtered sequence, the edit-war score is
  \<open>min (count / 20) 1\<close>, where \<open>count\<close> is the number of positions of the whole filtered
  sequence whose timestamp is at most 86400 seconds away, earlier or later. The position
  \<open>i\<close> itself is one of them.
\<close>

theorem edit_war_score_counts_day_neighbours:
  assumes "filter_revisions fromisoformat start_datetime end_datetime all_revisions
             = (all_revisions', filtered)"
      and "i < length filtered"
  shows "calculate_edit_war_score (filtered ! i) filtered (int i) =
           min (real (card {j. j < length filtered
                               \<and> within_day (filtered ! j) (filtered ! i)}) / 20) 1
         \<and> i \<in> {j. j < length filtered \<and> within_day (filtered ! j) (filtered ! i)}
         \<and> (\<forall>j < length filtered.
               within_day (filtered ! j) (filtered ! i) \<longleftrightarrow>
                 \<bar>the (parsed_timestamp (filtered ! j))
                   - the (parsed_timestamp (filtered ! i))\<bar> \<le> 86400)"
proof -
  have parsed: "parsed_timestamp (filtered ! j) \<noteq> None" if "j < length filtered" for j
    using filter_revisions_parsed
      [of "filtered ! j" fromisoformat start_datetime end_datetime all_revisions]
      assms(1) that by simp
  then obtain t where t: "parsed_timestamp (filtered ! i) = Some t" using assms(2) by blast
  have 1: "calculate_edit_war_score (filtered ! i) filtered (int i) =
           min (real (card {j. j < length filtered
                               \<and> within_day (filtered ! j) (filtered ! i)}) / 20) 1"
    by (rule edit_war_score_count [OF t])
  have 2: "within_day (filtered ! i) (filtered ! i)"
    using t by (simp add: within_day_def time_gap_def)
  have 3: "within_day (filtered ! j) (filtered ! i) \<longleftrightarrow>
             \<bar>the (parsed_timestamp (filtered ! j))
               - the (parsed_timestamp (filtered ! i))\<bar> \<le> 86400"
    if "j < length filtered" for j
    using parsed [OF that] t by (auto simp: within_day_def time_gap_def)
  show ?thesis using 1 2 3 assms(2) by simp
qed

lemma ex_within:
  "{j. j < length ex_filtered \<and> within_day (ex_filtered ! j) (ex_filtered ! 0)} = {0, 1}"
  by (auto simp: ex_filtered_def ex_fetched_def within_day_def time_gap_def stamp_def
        mk_rev_def less_Suc_eq)

text \<open>Two revisions two hours apart pass the filter: each counts both.\<close>

theorem edit_war_score_counts_day_neighbours_witness:
  "calculate_edit_war_score (ex_filtered ! 0) ex_filtered 0 = 1 / 10"
proof -
  have "0 < length ex_filtered" by (simp add: ex_filtered_def)
  from edit_war_score_counts_day_neighbours [OF ex_filter this]
  show ?thesis by (simp add: ex_within)
qed

section \<open>The revisions after an operation\<close>

lemma filter_revisions_fst:
  "fst (filter_revisions p s e revs) = map (annotated p s e) revs"
  by (induction revs) (auto simp: annotated_def stamp_def split: prod.splits option.splits)

lemma annotated_other_fields:
  "(annotated p s e r)\<lparr>parsed_timestamp := parsed_timestamp r\<rparr> = r"
  by (simp add: annotated_def stamp_def split: option.splits)

text \<open>
  C8, as stated. Both operations return the fetched list changed: the revisions that
  pass the filter now carry a parsed timestamp.
\<close>

theorem operations_mutate_counterexample:
  "fst (analyze_edit_activity fromisoformat_utc ex_fetched None None ''day'' 2) \<noteq> ex_fetched
   \<and> fst (get_significant_revisions fromisoformat_utc ex_fetched None None 50 (1 / 2)) \<noteq> ex_fetched"
proof -
  have "fst (analyze_edit_activity fromisoformat_utc ex_fetched None None ''day'' 2)
          = ex_filtered @ [stamp 63839786400 (ex_fetched ! 2)]"
    by (simp add: analyze_edit_activity_def ex_filter_all)
  moreover have "fst (get_significant_revisions fromisoformat_utc ex_fetched None None 50 (1 / 2))
          = ex_filtered @ [stamp 63839786400 (ex_fetched ! 2)]"
    by (simp add: get_significant_revisions_def ex_filter_all)
  moreover have "ex_filtered @ [stamp 63839786400 (ex_fetched ! 2)] \<noteq> ex_fetched"
    by (simp add: ex_filtered_def ex_fetched_def stamp_def mk_rev_def)
  ultimately show ?thesis by simp
qed

text \<open>
  C8, amended. Either operation stores the parsed timestamp in the dictionary of every
  fetched revision that passes the date filter, and changes nothing else: a revision
  that is filtered out, or whose timestamp does not parse, is left as it was, and no
  other field of any revision changes. The scores and the factor breakdowns are fields
  of the copies in the report; a revision has no such field.
\<close>

theorem operations_only_store_parsed_timestamp:
  "fst (analyze_edit_activity fromisoformat all_revisions start_datetime end_datetime
          window_size z_threshold)
     = map (annotated fromisoformat start_datetime end_datetime) all_revisions
   \<and> fst (get_significant_revisions fromisoformat all_revisions start_datetime end_datetime
          limit min_significance)
     = map (annotated fromisoformat start_datetime end_datetime) all_revisions
   \<and> (annotated fromisoformat start_datetime end_datetime r)
        \<lparr>parsed_timestamp := parsed_timestamp r\<rparr> = r
   \<and> parsed_timestamp (annotated fromisoformat start_datetime end_datetime r)
       = (case retained_time fromisoformat start_datetime end_datetime r of
            None \<Rightarrow> parsed_timestamp r
          | Some t \<Rightarrow> Some t)"
proof -
  have "fst (analyze_edit_activity fromisoformat all_revisions start_datetime end_datetime
          window_size z_threshold)
        = fst (filter_revisions fromisoformat start_datetime end_datetime all_revisions)"
    by (simp add: analyze_edit_activity_def split: prod.splits)
  moreover have "fst (get_significant_revisions fromisoformat all_revisions start_datetime
          end_datetime limit min_significance)
        = fst (filter_revisions fromisoformat start_datetime end_datetime all_revisions)"
    by (simp add: get_significant_revisions_def split: prod.splits)
  moreover have "parsed_timestamp (annotated fromisoformat start_datetime end_datetime r)
       = (case retained_time fromisoformat start_datetime end_datetime r of
            None \<Rightarrow> parsed_timestamp r
          | Some t \<Rightarrow> Some t)"
    by (simp add: annotated_def stamp_def split: option.splits)
  ultimately show ?thesis
    by (simp add: filter_revisions_fst annotated_other_fields)
qed

text \<open>With the start bound, the two revisions of 3 January are stamped, the third is not.\<close>

theorem operations_only_store_parsed_timestamp_witness:
  "fst (analyze_edit_activity fromisoformat_utc ex_fetched ex_start None ''day'' 2)
     = [stamp 63839890800 (ex_fetched ! 0), stamp 63839883600 (ex_fetched ! 1), ex_fetched ! 2]"
  using operations_only_store_parsed_timestamp
    [of fromisoformat_utc ex_fetched ex_start None "''day''" 2 50 "1 / 2" "ex_fetched ! 0"]
  by (simp add: annotated_def ex_fetched_def ex_start_def mk_rev_def retained_time_def
        after_start_def before_end_def parse_ex)

section \<open>Properties of the grouping into windows\<close>

lemma update_window_keys_old:
  "k \<in> fst ` set g \<Longrightarrow> map fst (update_window k r g) = map fst g"
  by (induction g) force+

lemma update_window_keys_new:
  "k \<notin> fst ` set g \<Longrightarrow> map fst (update_window k r g) = map fst g @ [k]"
  by (induction g) auto

lemma update_window_keys:
  "map fst (update_window k r g) = (if k \<in> set (map fst g) then map fst g else map fst g @ [k])"
  using update_window_keys_old [of k g r] update_window_keys_new [of k g r] by simp

lemma update_window_map_of:
  "map_of (update_window k r g) =
     (map_of g)(k \<mapsto> record_edit r (case map_of g k of None \<Rightarrow> new_window | Some d \<Rightarrow> d))"
  by (induction g) (auto simp: fun_eq_iff)

lemma windows_ok_empty: "windows_ok ws [] []"
  by (simp add: windows_ok_def)

lemma windows_ok_step:
  assumes ok: "windows_ok ws seen g" and t: "parsed_timestamp r = Some t"
  shows "windows_ok ws (seen @ [r]) (update_window (window_key ws t) r g)"
proof -
  let ?k = "window_key ws t"
  have kr: "window_of ws r = ?k" using t by (simp add: window_of_def)
  have d: "distinct (map fst (update_window ?k r g))"
    using ok by (simp add: update_window_keys windows_ok_def)
  have s: "set (map fst (update_window ?k r g)) = window_of ws ` set (seen @ [r])"
    using ok kr by (auto simp: update_window_keys windows_ok_def)
  have m: "revisions d' = filter (\<lambda>r. window_of ws r = k') (seen @ [r])
           \<and> edit_count d' = length (revisions d')
           \<and> editors d' = author_of ` set (revisions d')"
    if "map_of (update_window ?k r g) k' = Some d'" for k' d'
  proof (cases "k' = ?k")
    case False
    then have "map_of g k' = Some d'" using that by (simp add: update_window_map_of)
    then show ?thesis using ok False kr by (simp add: windows_ok_def)
  next
    case True
    show ?thesis
    proof (cases "map_of g ?k")
      case None
      then have "?k \<notin> set (map fst g)" by (simp add: map_of_eq_None_iff)
      then have "?k \<notin> window_of ws ` set seen" using ok by (simp add: windows_ok_def)
      then have "filter (\<lambda>r. window_of ws r = ?k) seen = []"
        by (auto simp: filter_empty_conv image_iff)
      moreover have "d' = record_edit r new_window"
        using that True None by (simp add: update_window_map_of)
      ultimately show ?thesis using True kr by (simp add: record_edit_def new_window_def)
    next
      case (Some d0)
      then have "d' = record_edit r d0" using that True by (simp add: update_window_map_of)
      moreover have "revisions d0 = filter (\<lambda>r. window_of ws r = ?k) seen
           \<and> edit_count d0 = length (revisions d0)
           \<and> editors d0 = author_of ` set (revisions d0)"
        using ok Some by (simp add: windows_ok_def)
      ultimately show ?thesis using True kr by (simp add: record_edit_def)
    qed
  qed
  from m have "\<forall>k' d'. map_of (update_window ?k r g) k' = Some d' \<longrightarrow>
      revisions d' = filter (\<lambda>r. window_of ws r = k') (seen @ [r])
      \<and> edit_count d' = length (revisions d')
      \<and> editors d' = author_of ` set (revisions d')"
    by (intro allI impI)
  with d s show ?thesis unfolding windows_ok_def by (intro conjI)
qed

lemma group_revisions_ok:
  "windows_ok ws seen g \<Longrightarrow> \<forall>r\<in>set rs. parsed_timestamp r \<noteq> None \<Longrightarrow>
     \<exists>g'. group_revisions ws rs g = Inr g' \<and> windows_ok ws (seen @ rs) g'"
proof (induction rs arbitrary: seen g)
  case Nil
  then show ?case by simp
next
  case (Cons r rs)
  then obtain t where t: "parsed_timestamp r = Some t" by auto
  have "windows_ok ws (seen @ [r]) (update_window (window_key ws t) r g)"
    using windows_ok_step [OF Cons.prems(1) t] .
  from Cons.IH [OF this] Cons.prems(2) t show ?case by simp
qed

lemma group_filtered:
  "\<exists>g. group_revisions ws (snd (filter_revisions p s e rs)) [] = Inr g
       \<and> windows_ok ws (snd (filter_revisions p s e rs)) g"
proof -
  have "\<forall>r\<in>set (snd (filter_revisions p s e rs)). parsed_timestamp r \<noteq> None"
    using filter_revisions_parsed by blast
  from group_revisions_ok [OF windows_ok_empty this] show ?thesis by simp
qed

lemma partition_mset:
  assumes "distinct ks" and "f ` set xs \<subseteq> set ks"
  shows "mset (concat (map (\<lambda>k. filter (\<lambda>x. f x = k) xs) ks)) = mset xs"
proof (rule multiset_eqI)
  fix x
  have "count (mset (concat (map (\<lambda>k. filter (\<lambda>x. f x = k) xs) ks))) x
        = (\<Sum>k\<leftarrow>ks. if f x = k then count (mset xs) x else 0)"
    by (induction ks) (auto simp: count_mset)
  also have "\<dots> = (if f x \<in> set ks then count (mset xs) x else 0)"
    using assms(1) by (induction ks) auto
  also have "\<dots> = count (mset xs) x"
    using assms(2) by (auto simp: count_mset count_list_0_iff)
  finally show "count (mset (concat (map (\<lambda>k. filter (\<lambda>x. f x = k) xs) ks))) x
                  = count (mset xs) x" .
qed

lemma windows_ok_snd:
  assumes "windows_ok ws seen g" and "(k, d) \<in> set g"
  shows "revisions d = filter (\<lambda>r. window_of ws r = k) seen"
    and "edit_count d = length (revisions d)" and "editors d = author_of ` set (revisions d)"
    and "revisions d \<noteq> []"
proof -
  have dist: "distinct (map fst g)"
    and keys: "set (map fst g) = window_of ws ` set seen"
    and entries: "\<forall>k d. map_of g k = Some d \<longrightarrow>
             revisions d = filter (\<lambda>r. window_of ws r = k) seen
             \<and> edit_count d = length (revisions d)
             \<and> editors d = author_of ` set (revisions d)"
    using assms(1) unfolding windows_ok_def by blast+
  have m: "map_of g k = Some d" using dist assms(2) by simp
  from entries [rule_format, OF m]
  show a: "revisions d = filter (\<lambda>r. window_of ws r = k) seen"
    and "edit_count d = length (revisions d)" and "editors d = author_of ` set (revisions d)"
    by blast+
  have "k \<in> set (map fst g)" using assms(2) by force
  then obtain r where "r \<in> set seen" "window_of ws r = k" using keys by auto
  then show "revisions d \<noteq> []" unfolding a by (auto simp: filter_empty_conv)
qed

lemma windows_ok_concat:
  assumes "windows_ok ws seen g"
  shows "mset (concat (map (\<lambda>(k, d). revisions d) g)) = mset seen"
proof -
  have "map (\<lambda>(k, d). revisions d) g
        = map (\<lambda>k. filter (\<lambda>r. window_of ws r = k) seen) (map fst g)"
    unfolding map_map
    by (rule map_cong [OF refl]) (use windows_ok_snd(1) [OF assms] in auto)
  moreover have "distinct (map fst g)" "window_of ws ` set seen \<subseteq> set (map fst g)"
    using assms by (simp_all add: windows_ok_def)
  ultimately show ?thesis
    using partition_mset [of "map fst g" "window_of ws" seen] by presburger
qed

lemma windows_ok_sum:
  assumes "windows_ok ws seen g"
  shows "(\<Sum>(k, d)\<leftarrow>g. edit_count d) = length seen"
proof -
  have "(\<Sum>(k, d)\<leftarrow>g. edit_count d) = (\<Sum>(k, d)\<leftarrow>g. length (revisions d))"
    using windows_ok_snd(2) [OF assms] by (intro arg_cong [where f = sum_list] map_cong) auto
  also have "\<dots> = length (concat (map (\<lambda>(k, d). revisions d) g))"
    by (simp add: length_concat comp_def case_prod_unfold)
  also have "\<dots> = length seen"
    using windows_ok_concat [OF assms] by (metis size_mset)
  finally show ?thesis .
qed

lemma windows_ok_length:
  assumes "windows_ok ws seen g"
  shows "length g = card (window_of ws ` set seen)"
proof -
  have "distinct (map fst g)" "set (map fst g) = window_of ws ` set seen"
    using assms by (simp_all add: windows_ok_def)
  then show ?thesis using distinct_card [of "map fst g"] by simp
qed

text \<open>
  C6. The grouping of a filtered sequence never fails, and its windows partition the
  sequence: the keys are distinct, the windows' revision lists together hold exactly the
  filtered revisions (each as often as the sequence holds it), every filtered revision is
  in the list of exactly one window, the edit counts add up to the number of filtered
  revisions, and every window holds at least one revision.
\<close>

theorem windows_partition_filtered:
  assumes "filter_revisions fromisoformat start_datetime end_datetime all_revisions
             = (all_revisions', filtered)"
  shows "\<exists>g. group_revisions window_size filtered [] = Inr g
           \<and> distinct (map fst g)
           \<and> mset (concat (map (\<lambda>(k, d). revisions d) g)) = mset filtered
           \<and> (\<Sum>(k, d)\<leftarrow>g. edit_count d) = length filtered
           \<and> (\<forall>(k, d)\<in>set g.
                 1 \<le> edit_count d \<and> edit_count d = length (revisions d)
                 \<and> revisions d = filter (\<lambda>r. window_of window_size r = k) filtered)
           \<and> (\<forall>r\<in>set filtered. \<exists>!k. \<exists>d. (k, d) \<in> set g \<and> r \<in> set (revisions d))"
proof -
  from group_filtered [of window_size fromisoformat start_datetime end_datetime all_revisions]
  obtain g where g: "group_revisions window_size filtered [] = Inr g"
    and ok: "windows_ok window_size filtered g"
    using assms by auto
  have dist: "distinct (map fst g)" using ok by (simp add: windows_ok_def)
  have keys: "set (map fst g) = window_of window_size ` set filtered"
    using ok by (simp add: windows_ok_def)
  have each: "1 \<le> edit_count d \<and> edit_count d = length (revisions d)
              \<and> revisions d = filter (\<lambda>r. window_of window_size r = k) filtered"
    if "(k, d) \<in> set g" for k d
  proof -
    note w = windows_ok_snd [OF ok that]
    have "length (revisions d) \<noteq> 0" using w(4) by simp
    then show ?thesis using w(1) w(2) by linarith
  qed
  have one: "\<exists>!k. \<exists>d. (k, d) \<in> set g \<and> r \<in> set (revisions d)" if r: "r \<in> set filtered" for r
  proof (rule ex1I [of _ "window_of window_size r"])
    have "window_of window_size r \<in> set (map fst g)" using keys r by simp
    then obtain d where d: "(window_of window_size r, d) \<in> set g" by auto
    then have "r \<in> set (revisions d)" using windows_ok_snd(1) [OF ok d] r by simp
    then show "\<exists>d. (window_of window_size r, d) \<in> set g \<and> r \<in> set (revisions d)"
      using d by blast
  next
    fix k
    assume "\<exists>d. (k, d) \<in> set g \<and> r \<in> set (revisions d)"
    then obtain d where d: "(k, d) \<in> set g" and m: "r \<in> set (revisions d)" by blast
    from m windows_ok_snd(1) [OF ok d] show "k = window_of window_size r" by simp
  qed
  from each have each': "\<forall>(k, d)\<in>set g.
                 1 \<le> edit_count d \<and> edit_count d = length (revisions d)
                 \<and> revisions d = filter (\<lambda>r. window_of window_size r = k) filtered"
    by blast
  show ?thesis
    using g dist windows_ok_concat [OF ok] windows_ok_sum [OF ok] each' one by blast
qed

lemma detect_spikes_map:
  "detect_spikes (mean (map (\<lambda>(k, d). edit_count d) g)) (stdev (map (\<lambda>(k, d). edit_count d) g))
     (mean (map (\<lambda>(k, d). card (editors d)) g)) (stdev (map (\<lambda>(k, d). card (editors d)) g))
     z g'
   = map (spike_of g) (filter (reaches z g) g')"
proof (induction g')
  case Nil
  show ?case by simp
next
  case (Cons a g')
  obtain k d where a: "a = (k, d)" by (cases a)
  show ?case unfolding a using Cons
    by (simp add: Let_def spike_of_def reaches_def edit_z_def editor_z_def)
qed

lemma sort_spikes_sorted:
  "sorted_wrt (\<lambda>a b. spike_key b \<le> spike_key a) (sort_key (\<lambda>x. - spike_key x) xs)"
proof -
  have "sorted (map (\<lambda>x. - spike_key x) (sort_key (\<lambda>x. - spike_key x) xs))"
    by (rule sorted_sort_key)
  then show ?thesis by (simp add: sorted_map)
qed

lemma sort_spikes_stable:
  "filter (\<lambda>x. spike_key x = c) (sort_key (\<lambda>x. - spike_key x) xs)
     = filter (\<lambda>x. spike_key x = c) xs"
  using sort_key_stable [of "\<lambda>x. - spike_key x" "- c" xs] by simp

lemma spike_statistics_cases:
  "(spike_statistics z n g = Inl Insufficient_data \<longleftrightarrow> length g < 3)
   \<and> (3 \<le> length g \<longrightarrow> (\<exists>rep. spike_statistics z n g = Inr rep
          \<and> total_windows rep = length g \<and> activity_revisions_analyzed rep = n
          \<and> edit_statistics rep
              = \<lparr>stat_mean = py_round (mean (map (\<lambda>(k, d). edit_count d) g)) 2,
                 stat_stdev = py_round (stdev (map (\<lambda>(k, d). edit_count d) g)) 2,
                 stat_min = Min (set (map (\<lambda>(k, d). edit_count d) g)),
                 stat_max = Max (set (map (\<lambda>(k, d). edit_count d) g))\<rparr>
          \<and> editor_statistics rep
              = \<lparr>stat_mean = py_round (mean (map (\<lambda>(k, d). card (editors d)) g)) 2,
                 stat_stdev = py_round (stdev (map (\<lambda>(k, d). card (editors d)) g)) 2,
                 stat_min = Min (set (map (\<lambda>(k, d). card (editors d)) g)),
                 stat_max = Max (set (map (\<lambda>(k, d). card (editors d)) g))\<rparr>
          \<and> spikes_detected rep = length (spikes rep)
          \<and> spikes rep
              = sort_key (\<lambda>x. - spike_key x) (map (spike_of g) (filter (reaches z g) g))))"
proof -
  have key: "(\<lambda>x. - max (edit_z_score x) (editor_z_score x)) = (\<lambda>x. - spike_key x)"
    by (simp add: spike_key_def)
  show ?thesis
    by (simp add: spike_statistics_def Let_def detect_spikes_map key)
qed

text \<open>
  C5. The activity analysis returns the insufficient-data error exactly when the
  filtered revisions fall into fewer than 3 distinct windows. With 3 or more windows it
  returns a report: the number of windows and of filtered revisions; for the edit counts
  and for the author counts of the windows, the mean and the sample standard deviation
  rounded to 2 decimals, the minimum and the maximum; and the spike list, which holds
  the spike of exactly every window that reaches the threshold, ordered by the larger
  rounded z-score, descending, spikes of equal key staying in the order of their windows.
\<close>

theorem insufficient_data_iff_fewer_than_three_windows:
  assumes "filter_revisions fromisoformat start_datetime end_datetime all_revisions
             = (all_revisions', filtered)"
  shows "(snd (analyze_edit_activity fromisoformat all_revisions start_datetime end_datetime
                 window_size z_threshold) = Inl Insufficient_data
            \<longleftrightarrow> card (window_of window_size ` set filtered) < 3)
         \<and> (3 \<le> card (window_of window_size ` set filtered) \<longrightarrow>
              (\<exists>rep g. snd (analyze_edit_activity fromisoformat all_revisions start_datetime
                             end_datetime window_size z_threshold) = Inr rep
                 \<and> total_windows rep = card (window_of window_size ` set filtered)
                 \<and> activity_revisions_analyzed rep = length filtered
                 \<and> group_revisions window_size filtered [] = Inr g
                 \<and> windows_ok window_size filtered g
                 \<and> edit_statistics rep
                     = \<lparr>stat_mean = py_round (mean (map (\<lambda>(k, d). edit_count d) g)) 2,
                        stat_stdev = py_round (stdev (map (\<lambda>(k, d). edit_count d) g)) 2,
                        stat_min = Min (set (map (\<lambda>(k, d). edit_count d) g)),
                        stat_max = Max (set (map (\<lambda>(k, d). edit_count d) g))\<rparr>
                 \<and> editor_statistics rep
                     = \<lparr>stat_mean = py_round (mean (map (\<lambda>(k, d). card (editors d)) g)) 2,
                        stat_stdev = py_round (stdev (map (\<lambda>(k, d). card (editors d)) g)) 2,
                        stat_min = Min (set (map (\<lambda>(k, d). card (editors d)) g)),
                        stat_max = Max (set (map (\<lambda>(k, d). card (editors d)) g))\<rparr>
                 \<and> spikes_detected rep = length (spikes rep)
                 \<and> length (spikes rep) = length (filter (reaches z_threshold g) g)
                 \<and> sorted_wrt (\<lambda>a b. spike_key b \<le> spike_key a) (spikes rep)
                 \<and> (\<forall>c. filter (\<lambda>x. spike_key x = c) (spikes rep)
                         = filter (\<lambda>x. spike_key x = c)
                             (map (spike_of g) (filter (reaches z_threshold g) g)))))"
proof -
  let ?res = "snd (analyze_edit_activity fromisoformat all_revisions start_datetime
                     end_datetime window_size z_threshold)"
  from group_filtered [of window_size fromisoformat start_datetime end_datetime all_revisions]
  obtain g where g: "group_revisions window_size filtered [] = Inr g"
    and ok: "windows_ok window_size filtered g"
    using assms by auto
  have res: "?res = spike_statistics z_threshold (length filtered) g"
    using assms g by (simp add: analyze_edit_activity_def)
  note len = windows_ok_length [OF ok]
  note cases = spike_statistics_cases [of z_threshold "length filtered" g]
  have 1: "?res = Inl Insufficient_data \<longleftrightarrow> card (window_of window_size ` set filtered) < 3"
    using cases [THEN conjunct1] unfolding res len .
  have 2: "\<exists>rep g. ?res = Inr rep
                 \<and> total_windows rep = card (window_of window_size ` set filtered)
                 \<and> activity_revisions_analyzed rep = length filtered
                 \<and> group_revisions window_size filtered [] = Inr g
                 \<and> windows_ok window_size filtered g
                 \<and> edit_statistics rep
                     = \<lparr>stat_mean = py_round (mean (map (\<lambda>(k, d). edit_count d) g)) 2,
                        stat_stdev = py_round (stdev (map (\<lambda>(k, d). edit_count d) g)) 2,
                        stat_min = Min (set (map (\<lambda>(k, d). edit_count d) g)),
                        stat_max = Max (set (map (\<lambda>(k, d). edit_count d) g))\<rparr>
                 \<and> editor_statistics rep
                     = \<lparr>stat_mean = py_round (mean (map (\<lambda>(k, d). card (editors d)) g)) 2,
                        stat_stdev = py_round (stdev (map (\<lambda>(k, d). card (editors d)) g)) 2,
                        stat_min = Min (set (map (\<lambda>(k, d). card (editors d)) g)),
                        stat_max = Max (set (map (\<lambda>(k, d). card (editors d)) g))\<rparr>
                 \<and> spikes_detected rep = length (spikes rep)
                 \<and> length (spikes rep) = length (filter (reaches z_threshold g) g)
                 \<and> sorted_wrt (\<lambda>a b. spike_key b \<le> spike_key a) (spikes rep)
                 \<and> (\<forall>c. filter (\<lambda>x. spike_key x = c) (spikes rep)
                         = filter (\<lambda>x. spike_key x = c)
                             (map (spike_of g) (filter (reaches z_threshold g) g)))"
    if three: "3 \<le> card (window_of window_size ` set filtered)"
  proof -
    from three have "3 \<le> length g" by (simp add: len)
    with cases [THEN conjunct2] obtain rep where
      r: "spike_statistics z_threshold (length filtered) g = Inr rep"
      and tw: "total_windows rep = length g"
      and ra: "activity_revisions_analyzed rep = length filtered"
      and es: "edit_statistics rep
              = \<lparr>stat_mean = py_round (mean (map (\<lambda>(k, d). edit_count d) g)) 2,
                 stat_stdev = py_round (stdev (map (\<lambda>(k, d). edit_count d) g)) 2,
                 stat_min = Min (set (map (\<lambda>(k, d). edit_count d) g)),
                 stat_max = Max (set (map (\<lambda>(k, d). edit_count d) g))\<rparr>"
      and as: "editor_statistics rep
              = \<lparr>stat_mean = py_round (mean (map (\<lambda>(k, d). card (editors d)) g)) 2,
                 stat_stdev = py_round (stdev (map (\<lambda>(k, d). card (editors d)) g)) 2,
                 stat_min = Min (set (map (\<lambda>(k, d). card (editors d)) g)),
                 stat_max = Max (set (map (\<lambda>(k, d). card (editors d)) g))\<rparr>"
      and sd: "spikes_detected rep = length (spikes rep)"
      and sp: "spikes rep
              = sort_key (\<lambda>x. - spike_key x)
                  (map (spike_of g) (filter (reaches z_threshold g) g))"
      by (elim impE exE conjE) assumption
    have l: "length (spikes rep) = length (filter (reaches z_threshold g) g)"
      unfolding sp by simp
    have so: "sorted_wrt (\<lambda>a b. spike_key b \<le> spike_key a) (spikes rep)"
      unfolding sp by (rule sort_spikes_sorted)
    have st: "\<forall>c. filter (\<lambda>x. spike_key x = c) (spikes rep)
                         = filter (\<lambda>x. spike_key x = c)
                             (map (spike_of g) (filter (reaches z_threshold g) g))"
      unfolding sp by (intro allI sort_spikes_stable)
    have r': "?res = Inr rep" using r res by simp
    have tw': "total_windows rep = card (window_of window_size ` set filtered)"
      using tw len by simp
    from r' tw' ra g ok es as sd l so st show ?thesis
      by (intro exI [of _ rep] exI [of _ g] conjI)
  qed
  from 1 2 show ?thesis by (intro conjI impI)
qed

section \<open>The example, grouped by day\<close>

lemmas calendar_defs = window_key_def weekday_def toordinal_def strftime_Ymd_def strftime_Ym_def
  ord2ymd_def Let_def days_before_month_def days_in_month_def pad2_def pad4_def digit_char_def

lemma ex_window_keys:
  "window_key ''day'' 63839890800 = ''2024-01-03''"
  "window_key ''day'' 63839883600 = ''2024-01-03''"
  "window_key ''day'' 63839786400 = ''2024-01-02''"
  by (simp_all add: calendar_defs)

lemma ex_grouped:
  "group_revisions ''day'' ex_all [] =
     Inr [(''2024-01-03'',
           \<lparr>edit_count = 2, editors = {''Ann'', ''Unknown''},
            revisions = ex_filtered\<rparr>),
          (''2024-01-02'',
           \<lparr>edit_count = 1, editors = {''Ann''},
            revisions = [stamp 63839786400 (ex_fetched ! 2)]\<rparr>)]"
  by (simp add: ex_all_def ex_filtered_def ex_fetched_def stamp_def mk_rev_def ex_window_keys
        record_edit_def new_window_def author_of_def)

lemma ex_windows:
  "window_of ''day'' ` set ex_all = {''2024-01-03'', ''2024-01-02''}"
  by (simp add: ex_all_def ex_filtered_def ex_fetched_def stamp_def mk_rev_def window_of_def
        ex_window_keys)

lemma ex_filter_all': "filter_revisions fromisoformat_utc None None ex_fetched = (ex_all, ex_all)"
  by (simp add: ex_filter_all ex_all_def)

text \<open>The three example revisions fall into two days, of two edits and of one.\<close>

theorem windows_partition_filtered_witness:
  "\<exists>g. group_revisions ''day'' ex_all [] = Inr g
       \<and> map fst g = [''2024-01-03'', ''2024-01-02'']
       \<and> (\<Sum>(k, d)\<leftarrow>g. edit_count d) = length ex_all"
proof -
  from windows_partition_filtered [OF ex_filter_all', of "''day''"]
  obtain g where g: "group_revisions ''day'' ex_all [] = Inr g"
    and s: "(\<Sum>(k, d)\<leftarrow>g. edit_count d) = length ex_all"
    by (elim exE conjE)
  from g have "map fst g = [''2024-01-03'', ''2024-01-02'']" unfolding ex_grouped by auto
  with g s show ?thesis by (intro exI conjI)
qed

section \<open>Revisions without an author\<close>

lemma count_user_edits_empty_name:
  "count_user_edits revs m [] = m []"
  by (induction revs arbitrary: m) (auto split: option.splits)

lemma author_of_image_unknown:
  assumes "\<exists>r\<in>set rs. user r = None"
  shows "author_of ` set rs = insert ''Unknown'' {u. \<exists>r\<in>set rs. user r = Some u}"
proof (rule set_eqI)
  fix a
  show "a \<in> author_of ` set rs \<longleftrightarrow> a \<in> insert ''Unknown'' {u. \<exists>r\<in>set rs. user r = Some u}"
  proof
    assume "a \<in> author_of ` set rs"
    then obtain r where r: "r \<in> set rs" "a = author_of r" by blast
    then show "a \<in> insert ''Unknown'' {u. \<exists>r\<in>set rs. user r = Some u}"
      by (cases "user r") (auto simp: author_of_def)
  next
    assume a: "a \<in> insert ''Unknown'' {u. \<exists>r\<in>set rs. user r = Some u}"
    show "a \<in> author_of ` set rs"
    proof (cases "a = ''Unknown''")
      case True
      from assms obtain r where "r \<in> set rs" "user r = None" by blast
      then have "author_of r = ''Unknown''" "r \<in> set rs" by (simp_all add: author_of_def)
      then show ?thesis using True by (metis imageI)
    next
      case False
      with a obtain r where "r \<in> set rs" "user r = Some a" by blast
      then have "author_of r = a" "r \<in> set rs" by (simp_all add: author_of_def)
      then show ?thesis by (metis imageI)
    qed
  qed
qed

text \<open>
  C10. In the activity analysis a revision without an author is counted under the name
  \<^verbatim>\<open>Unknown\<close>: the authors of a window with such a revision are the named authors and
  \<^verbatim>\<open>Unknown\<close>, and a window of authorless revisions only has exactly one author. In
  the significance ranking the edit counts have no entry for the name that the scorer
  looks up for an authorless revision, so its edit count is the default 1 and its
  experience factor is 1.
\<close>

theorem authorless_revisions_count_as_unknown:
  assumes "filter_revisions fromisoformat start_datetime end_datetime all_revisions
             = (all_revisions', filtered)"
      and "group_revisions window_size filtered [] = Inr g"
  shows "(\<forall>(k, d)\<in>set g.
            (\<exists>r\<in>set (revisions d). user r = None) \<longrightarrow>
              editors d = insert ''Unknown'' {u. \<exists>r\<in>set (revisions d). user r = Some u})
         \<and> (\<forall>(k, d)\<in>set g.
              (\<forall>r\<in>set (revisions d). user r = None) \<longrightarrow> card (editors d) = 1)
         \<and> (\<forall>r\<in>set filtered.
              user r = None \<longrightarrow>
                count_user_edits filtered Map.empty [] = None
                \<and> experience_factor r (count_user_edits filtered Map.empty) = 1)"
proof -
  from group_filtered [of window_size fromisoformat start_datetime end_datetime all_revisions]
  have ok: "windows_ok window_size filtered g"
    using assms by auto
  have a: "editors d = insert ''Unknown'' {u. \<exists>r\<in>set (revisions d). user r = Some u}"
    if "(k, d) \<in> set g" "\<exists>r\<in>set (revisions d). user r = None" for k d
    using windows_ok_snd(3) [OF ok that(1)] author_of_image_unknown [OF that(2)] by simp
  have b: "card (editors d) = 1"
    if "(k, d) \<in> set g" "\<forall>r\<in>set (revisions d). user r = None" for k d
  proof -
    have "revisions d \<noteq> []" using windows_ok_snd(4) [OF ok that(1)] .
    then have "\<exists>r\<in>set (revisions d). user r = None" using that(2) by (cases "revisions d") auto
    moreover have "{u. \<exists>r\<in>set (revisions d). user r = Some u} = {}" using that(2) by auto
    ultimately have "editors d = {''Unknown''}" using a [OF that(1)] by simp
    then show ?thesis by simp
  qed
  have c: "count_user_edits filtered Map.empty [] = None
           \<and> experience_factor r (count_user_edits filtered Map.empty) = 1"
    if "user r = None" for r
    using that by (simp add: count_user_edits_empty_name experience_factor_def)
  from a have a': "\<forall>(k, d)\<in>set g.
            (\<exists>r\<in>set (revisions d). user r = None) \<longrightarrow>
              editors d = insert ''Unknown'' {u. \<exists>r\<in>set (revisions d). user r = Some u}"
    by blast
  from b have b': "\<forall>(k, d)\<in>set g.
              (\<forall>r\<in>set (revisions d). user r = None) \<longrightarrow> card (editors d) = 1"
    by blast
  from c have c': "\<forall>r\<in>set filtered.
              user r = None \<longrightarrow>
                count_user_edits filtered Map.empty [] = None
                \<and> experience_factor r (count_user_edits filtered Map.empty) = 1"
    by blast
  from a' b' c' show ?thesis by (intro conjI)
qed

text \<open>The window of 3 January holds an authorless revision and one by Ann.\<close>

theorem authorless_revisions_count_as_unknown_witness:
  "editors \<lparr>edit_count = 2, editors = {''Ann'', ''Unknown''}, revisions = ex_filtered\<rparr>
     = insert ''Unknown'' {u. \<exists>r\<in>set ex_filtered. user r = Some u}
   \<and> experience_factor (ex_all ! 0) (count_user_edits ex_all Map.empty) = 1"
proof -
  note T = authorless_revisions_count_as_unknown [OF ex_filter_all' ex_grouped]
  let ?d = "\<lparr>edit_count = 2, editors = {''Ann'', ''Unknown''}, revisions = ex_filtered\<rparr>"
  have e: "\<exists>r\<in>set (revisions ?d). user r = None"
    by (simp add: ex_filtered_def ex_fetched_def stamp_def mk_rev_def)
  from T have "\<forall>(k, d)\<in>set [(''2024-01-03'', ?d),
          (''2024-01-02'',
           \<lparr>edit_count = 1, editors = {''Ann''},
            revisions = [stamp 63839786400 (ex_fetched ! 2)]\<rparr>)].
            (\<exists>r\<in>set (revisions d). user r = None) \<longrightarrow>
              editors d = insert ''Unknown'' {u. \<exists>r\<in>set (revisions d). user r = Some u}"
    by (rule conjunct1)
  then have "(\<exists>r\<in>set (revisions ?d). user r = None) \<longrightarrow>
              editors ?d = insert ''Unknown'' {u. \<exists>r\<in>set (revisions ?d). user r = Some u}"
    by simp
  with e have 1: "editors ?d = insert ''Unknown'' {u. \<exists>r\<in>set ex_filtered. user r = Some u}"
    by simp
  from T have "\<forall>r\<in>set ex_all.
              user r = None \<longrightarrow>
                count_user_edits ex_all Map.empty [] = None
                \<and> experience_factor r (count_user_edits ex_all Map.empty) = 1"
    by (elim conjE)
  moreover have "ex_all ! 0 \<in> set ex_all" "user (ex_all ! 0) = None"
    by (simp_all add: ex_all_def ex_filtered_def ex_fetched_def stamp_def mk_rev_def)
  ultimately have 2: "experience_factor (ex_all ! 0) (count_user_edits ex_all Map.empty) = 1"
    by (elim ballE [where x = "ex_all ! 0"]) simp_all
  from 1 2 show ?thesis by (intro conjI)
qed

section \<open>Properties of the window keys\<close>

lemma window_key_default:
  "ws \<notin> {''day'', ''week'', ''month''} \<Longrightarrow> window_key ws t = window_key ''day'' t"
  by (simp add: window_key_def)

lemma group_revisions_default:
  "ws \<notin> {''day'', ''week'', ''month''} \<Longrightarrow>
     group_revisions ws rs g = group_revisions ''day'' rs g"
  by (induction rs arbitrary: g) (simp_all add: window_key_default split: option.splits)

lemma digit_char_digit: "digit_char d \<in> set ''0123456789''"
proof -
  have "nat (d mod 10) < length ''0123456789''" by simp
  then show ?thesis unfolding digit_char_def by (rule nth_mem)
qed

lemma last_strftime_Ymd: "last (strftime_Ymd t) \<in> set ''0123456789''"
  by (simp add: strftime_Ymd_def pad2_def digit_char_digit split: prod.splits del: set_simps)

lemma last_week_key: "last (window_key ''week'' t) = CHR ''k''"
  by (simp add: window_key_def)

lemma week_key_not_day_key: "window_key ''week'' t \<noteq> window_key ''day'' t'"
proof
  assume "window_key ''week'' t = window_key ''day'' t'"
  then have "last (window_key ''week'' t) = last (strftime_Ymd t')"
    by (simp add: window_key_def)
  then have "CHR ''k'' \<in> set ''0123456789''"
    using last_strftime_Ymd [of t'] last_week_key [of t] by simp
  then show False by simp
qed

text \<open>
  C9. With a window size other than \<^verbatim>\<open>day\<close>, \<^verbatim>\<open>week\<close> and \<^verbatim>\<open>month\<close> the key of
  every timestamp is its day key, and the whole analysis returns what it returns for
  \<^verbatim>\<open>day\<close>: there is no error for the unknown size. A week key never equals a day
  key, of the same or of another timestamp: it ends in \<^verbatim>\<open>-week\<close>, a day key in a digit.
\<close>

theorem unknown_window_size_is_day_and_week_keys_differ:
  "(window_size \<notin> {''day'', ''week'', ''month''} \<longrightarrow>
      window_key window_size t = window_key ''day'' t
      \<and> analyze_edit_activity fromisoformat all_revisions start_datetime end_datetime
            window_size z_threshold
          = analyze_edit_activity fromisoformat all_revisions start_datetime end_datetime
            ''day'' z_threshold)
   \<and> window_key ''week'' t \<noteq> window_key ''day'' t'"
proof -
  have "analyze_edit_activity fromisoformat all_revisions start_datetime end_datetime
            window_size z_threshold
          = analyze_edit_activity fromisoformat all_revisions start_datetime end_datetime
            ''day'' z_threshold"
    if "window_size \<notin> {''day'', ''week'', ''month''}"
    using group_revisions_default [OF that] by (simp add: analyze_edit_activity_def)
  then show ?thesis using window_key_default week_key_not_day_key by blast
qed

lemma ex_monday: "window_key ''week'' 63839890800 = ''2024-01-01-week''"
  by (simp add: calendar_defs)

lemma ex_new_year: "window_key ''day'' 63839700000 = ''2024-01-01''"
  by (simp add: calendar_defs)

text \<open>
  Wednesday 3 January 2024 is in the week of Monday 1 January; the day key of that
  Monday is \<^verbatim>\<open>2024-01-01\<close>, the week key \<^verbatim>\<open>2024-01-01-week\<close>.
\<close>

theorem unknown_window_size_is_day_and_week_keys_differ_witness:
  "window_key ''fortnight'' 63839890800 = ''2024-01-03''
   \<and> window_key ''week'' 63839890800 \<noteq> window_key ''day'' 63839700000"
proof -
  have "''fortnight'' \<notin> {''day'', ''week'', ''month''}" by simp
  with unknown_window_size_is_day_and_week_keys_differ
    [of "''fortnight''" 63839890800 fromisoformat_utc ex_fetched None None 2 63839700000]
  have "window_key ''fortnight'' 63839890800 = window_key ''day'' 63839890800"
    and "window_key ''week'' 63839890800 \<noteq> window_key ''day'' 63839700000"
    by simp_all
  then show ?thesis by (simp add: ex_window_keys)
qed

section \<open>The activity example\<close>

lemma parse_ex_activity:
  "fromisoformat_utc (replace_Z ''2024-01-03T11:00:00Z'') = Some 63839876400"
  "fromisoformat_utc (replace_Z ''2024-01-02T09:00:00Z'') = Some 63839782800"
  "fromisoformat_utc (replace_Z ''2024-01-01T08:00:00Z'') = Some 63839692800"
  by (simp_all add: fromisoformat_utc_def replace_Z_def digit_val_def ymd2ord_def
        days_before_month_def days_in_month_def is_leap_def)

lemma ex_activity_filter:
  "filter_revisions fromisoformat_utc None None ex_activity
     = (ex_activity_stamped, ex_activity_stamped)"
  by (simp add: ex_activity_def ex_activity_stamped_def mk_rev_def stamp_def retained_time_def
        after_start_def before_end_def parse_ex parse_ex_activity)

lemma ex_activity_keys:
  "window_key ''day'' 63839876400 = ''2024-01-03''"
  "window_key ''day'' 63839782800 = ''2024-01-02''"
  "window_key ''day'' 63839692800 = ''2024-01-01''"
  by (simp_all add: calendar_defs)

lemma ex_activity_group:
  "group_revisions ''day'' ex_activity_stamped [] = Inr ex_activity_grouped"
  by (simp add: ex_activity_grouped_def ex_activity_stamped_def ex_activity_def stamp_def
        mk_rev_def ex_window_keys ex_activity_keys record_edit_def new_window_def author_of_def
        insert_commute)

lemma ex_activity_counts:
  "window_counts ex_activity_grouped
     = [(''2024-01-03'', 3, 3), (''2024-01-02'', 2, 2), (''2024-01-01'', 1, 1)]"
  by (simp add: window_counts_def ex_activity_grouped_def)

lemma ex_mean: "mean [3, 2, Suc 0] = 2"
  by (simp add: mean_def)

lemma ex_stdev: "stdev [3, 2, Suc 0] = 1"
  by (simp add: stdev_def mean_def)

lemma ex_round: "py_round 1 2 = 1" "py_round 0 2 = 0" "py_round (- 1) 2 = - 1"
  by (simp_all add: py_round_def round_half_even_def)

lemma ex_edit_counts: "map (\<lambda>(k, d). edit_count d) ex_activity_grouped = [3, 2, 1]"
  by (simp add: ex_activity_grouped_def)

lemma ex_editor_counts: "map (\<lambda>(k, d). card (editors d)) ex_activity_grouped = [3, 2, 1]"
  by (simp add: ex_activity_grouped_def)

lemma ex_detect_negative:
  "map (\<lambda>s. (window s, edit_z_score s, editor_z_score s))
     (detect_spikes 2 1 2 1 (- (3 / 2)) ex_activity_grouped)
   = [(''2024-01-03'', 1, 1), (''2024-01-02'', 0, 0), (''2024-01-01'', - 1, - 1)]"
  by (simp add: ex_activity_grouped_def z_score_def ex_round Let_def)

lemma map_insort_key:
  "map p (insort_key (\<lambda>x. k (p x)) a xs) = insort_key k (p a) (map p xs)"
  by (induction xs) simp_all

lemma map_sort_key:
  "map p (sort_key (\<lambda>x. k (p x)) xs) = sort_key k (map p xs)"
  by (induction xs) (simp_all add: map_insort_key)

lemma spike_windows_statistics:
  assumes "3 \<le> length g"
  shows "spike_windows (spike_statistics z n g) =
           map fst (sort_key (\<lambda>(w, a, b). - max a b)
             (map (\<lambda>s. (window s, edit_z_score s, editor_z_score s))
                (detect_spikes (mean (map (\<lambda>(k, d). edit_count d) g))
                   (stdev (map (\<lambda>(k, d). edit_count d) g))
                   (mean (map (\<lambda>(k, d). card (editors d)) g))
                   (stdev (map (\<lambda>(k, d). card (editors d)) g)) z g)))"
proof -
  have "map window (sort_key (\<lambda>x. - max (edit_z_score x) (editor_z_score x)) xs)
        = map fst (sort_key (\<lambda>(w, a, b). - max a b)
             (map (\<lambda>s. (window s, edit_z_score s, editor_z_score s)) xs))" for xs
    using map_sort_key [of "\<lambda>s. (window s, edit_z_score s, editor_z_score s)"
             "\<lambda>(w, a, b). - max a b" xs, symmetric]
    by (simp add: comp_def)
  then show ?thesis
    using assms by (simp add: spike_windows_def spike_statistics_def Let_def)
qed

lemma ex_activity_spikes_negative:
  "spike_windows (spike_statistics (- 3 / 2) 6 ex_activity_grouped)
     = [''2024-01-03'', ''2024-01-02'', ''2024-01-01'']"
proof -
  have "3 \<le> length ex_activity_grouped" by (simp add: ex_activity_grouped_def)
  from spike_windows_statistics [OF this] show ?thesis
    by (simp add: ex_edit_counts ex_editor_counts ex_mean ex_stdev ex_detect_negative)
qed

lemma ex_activity_windows:
  "window_of ''day'' ` set ex_activity_stamped = {''2024-01-03'', ''2024-01-02'', ''2024-01-01''}"
  by (simp add: ex_activity_stamped_def ex_activity_def stamp_def mk_rev_def window_of_def
        ex_window_keys ex_activity_keys)

lemma ex_round_two: "py_round 2 2 = 2"
  by (simp add: py_round_def round_half_even_def)

lemma ex_reaches_fun:
  "reaches 1 ex_activity_grouped
     = (\<lambda>kd. 3 \<le> edit_count (snd kd) \<or> 3 \<le> card (editors (snd kd)))"
proof (rule ext)
  fix kd :: "string \<times> window_data"
  have "edit_z ex_activity_grouped (snd kd) = real (edit_count (snd kd)) - 2"
    by (simp add: edit_z_def ex_edit_counts ex_mean ex_stdev z_score_def)
  moreover have "editor_z ex_activity_grouped (snd kd) = real (card (editors (snd kd))) - 2"
    by (simp add: editor_z_def ex_editor_counts ex_mean ex_stdev z_score_def)
  ultimately show "reaches 1 ex_activity_grouped kd
     = (3 \<le> edit_count (snd kd) \<or> 3 \<le> card (editors (snd kd)))"
    unfolding reaches_def by auto
qed

lemma ex_reaches:
  "length (filter (reaches 1 ex_activity_grouped) ex_activity_grouped) = 1"
  unfolding ex_reaches_fun by (simp add: ex_activity_grouped_def)

text \<open>
  The example of three revisions has two windows, which are not enough. The example of
  six revisions has three windows with 3, 2 and 1 edits: the analysis with the threshold
  1 reports the mean 2, the standard deviation 1, the minimum 1, the maximum 3, and one
  spike.
\<close>

theorem insufficient_data_iff_fewer_than_three_windows_witness:
  "snd (analyze_edit_activity fromisoformat_utc ex_fetched None None ''day'' 2)
     = Inl Insufficient_data
   \<and> (\<exists>rep. snd (analyze_edit_activity fromisoformat_utc ex_activity None None ''day'' 1)
               = Inr rep
            \<and> total_windows rep = 3
            \<and> edit_statistics rep
                = \<lparr>stat_mean = 2, stat_stdev = 1, stat_min = 1, stat_max = 3\<rparr>
            \<and> spikes_detected rep = 1)"
proof
  have "card (window_of ''day'' ` set ex_all) < 3" by (simp add: ex_windows)
  with insufficient_data_iff_fewer_than_three_windows
    [OF ex_filter_all', of "''day''" 2, THEN conjunct1]
  show "snd (analyze_edit_activity fromisoformat_utc ex_fetched None None ''day'' 2)
          = Inl Insufficient_data"
    by (rule iffD2)
next
  have c: "card (window_of ''day'' ` set ex_activity_stamped) = 3"
    unfolding ex_activity_windows by simp
  then have "3 \<le> card (window_of ''day'' ` set ex_activity_stamped)" by simp
  with insufficient_data_iff_fewer_than_three_windows
    [OF ex_activity_filter, of "''day''" 1, THEN conjunct2]
  obtain rep g where
    r: "snd (analyze_edit_activity fromisoformat_utc ex_activity None None ''day'' 1) = Inr rep"
    and tw: "total_windows rep = card (window_of ''day'' ` set ex_activity_stamped)"
    and g: "group_revisions ''day'' ex_activity_stamped [] = Inr g"
    and es: "edit_statistics rep
              = \<lparr>stat_mean = py_round (mean (map (\<lambda>(k, d). edit_count d) g)) 2,
                 stat_stdev = py_round (stdev (map (\<lambda>(k, d). edit_count d) g)) 2,
                 stat_min = Min (set (map (\<lambda>(k, d). edit_count d) g)),
                 stat_max = Max (set (map (\<lambda>(k, d). edit_count d) g))\<rparr>"
    and sd: "spikes_detected rep = length (spikes rep)"
    and l: "length (spikes rep) = length (filter (reaches 1 g) g)"
    by (elim impE exE conjE) assumption
  from g have geq: "g = ex_activity_grouped" unfolding ex_activity_group by simp
  have 1: "total_windows rep = 3" using tw c by simp
  have 2: "edit_statistics rep = \<lparr>stat_mean = 2, stat_stdev = 1, stat_min = 1, stat_max = 3\<rparr>"
    unfolding es geq ex_edit_counts by (simp add: ex_mean ex_stdev ex_round ex_round_two)
  have 3: "spikes_detected rep = 1" unfolding sd l geq by (rule ex_reaches)
  from r 1 2 3
  show "\<exists>rep. snd (analyze_edit_activity fromisoformat_utc ex_activity None None ''day'' 1)
               = Inr rep
            \<and> total_windows rep = 3
            \<and> edit_statistics rep
                = \<lparr>stat_mean = 2, stat_stdev = 1, stat_min = 1, stat_max = 3\<rparr>
            \<and> spikes_detected rep = 1"
    by (intro exI [of _ rep] conjI)
qed

section \<open>Properties of the spike detection\<close>

lemma detect_spikes_windows:
  "window ` set (detect_spikes em es am sa z g) =
     {k. \<exists>d. (k, d) \<in> set g
          \<and> (z \<le> z_score (edit_count d) em es \<or> z \<le> z_score (card (editors d)) am sa)}"
proof (induction g)
  case Nil
  show ?case by simp
next
  case (Cons a g)
  obtain k d where a: "a = (k, d)" by (cases a)
  show ?case unfolding a using Cons by (auto simp: Let_def)
qed

lemma spike_windows_set:
  assumes "3 \<le> length g"
  shows "set (spike_windows (spike_statistics z n g)) =
           {k. \<exists>d. (k, d) \<in> set g \<and> (z \<le> edit_z g d \<or> z \<le> editor_z g d)}"
proof -
  have "set (spike_windows (spike_statistics z n g)) =
          window ` set (detect_spikes (mean (map (\<lambda>(k, d). edit_count d) g))
                   (stdev (map (\<lambda>(k, d). edit_count d) g))
                   (mean (map (\<lambda>(k, d). card (editors d)) g))
                   (stdev (map (\<lambda>(k, d). card (editors d)) g)) z g)"
    using assms by (simp add: spike_windows_def spike_statistics_def Let_def)
  then show ?thesis by (simp add: detect_spikes_windows edit_z_def editor_z_def)
qed

lemma member_le_sum_list_real:
  fixes f :: "'a \<Rightarrow> real"
  assumes "x \<in> set xs" and "\<forall>y\<in>set xs. 0 \<le> f y"
  shows "f x \<le> (\<Sum>y\<leftarrow>xs. f y)"
  using assms
proof (induction xs)
  case Nil
  then show ?case by simp
next
  case (Cons a xs)
  have nn: "0 \<le> (\<Sum>y\<leftarrow>xs. f y)" using Cons.prems(2) by (intro sum_list_nonneg) auto
  show ?case
  proof (cases "x = a")
    case True
    then show ?thesis using nn by simp
  next
    case False
    then have "f x \<le> (\<Sum>y\<leftarrow>xs. f y)" using Cons by simp
    moreover have "0 \<le> f a" using Cons.prems(2) by simp
    ultimately show ?thesis by simp
  qed
qed

lemma stdev_positive:
  assumes "x \<in> set xs" and "real x \<noteq> mean xs" and "2 \<le> length xs"
  shows "0 < stdev xs"
proof -
  have "0 < (real x - mean xs)\<^sup>2" using assms(2) by simp
  also have "\<dots> \<le> (\<Sum>y\<leftarrow>xs. (real y - mean xs)\<^sup>2)"
    using member_le_sum_list_real [of x xs "\<lambda>y. (real y - mean xs)\<^sup>2"] assms(1) by simp
  finally have "0 < (\<Sum>y\<leftarrow>xs. (real y - mean xs)\<^sup>2)" .
  moreover have "0 < real (length xs - 1)" using assms(3) by simp
  ultimately show ?thesis by (simp add: stdev_def)
qed

lemma z_score_below_mean:
  assumes "x \<in> set xs" and "real x < mean xs" and "2 \<le> length xs"
  shows "z_score x (mean xs) (stdev xs) < 0"
proof -
  have "0 < stdev xs" using stdev_positive [OF assms(1) _ assms(3)] assms(2) by simp
  then show ?thesis using assms(2) by (simp add: z_score_def divide_neg_pos)
qed

lemma ex_activity_result:
  "snd (analyze_edit_activity fromisoformat_utc ex_activity None None ''day'' z)
     = spike_statistics z 6 ex_activity_grouped"
proof -
  have "length ex_activity_stamped = 6" by (simp add: ex_activity_stamped_def)
  then show ?thesis
    by (simp add: analyze_edit_activity_def ex_activity_filter ex_activity_group)
qed

text \<open>
  C4, as stated, for every threshold. The day 2024-01-01 has 1 edit by 1 author, the
  means are 2 and 2, and the standard deviations are 1: its z-scores are \<open>-1\<close>. With
  the threshold \<open>-1.5\<close> it is flagged.
\<close>

theorem below_mean_window_flagged_counterexample:
  "snd (filter_revisions fromisoformat_utc None None ex_activity) = ex_activity_stamped
   \<and> group_revisions ''day'' ex_activity_stamped [] = Inr ex_activity_grouped
   \<and> window_counts ex_activity_grouped
       = [(''2024-01-03'', 3, 3), (''2024-01-02'', 2, 2), (''2024-01-01'', 1, 1)]
   \<and> mean [3, 2, 1] = 2
   \<and> spike_windows
         (snd (analyze_edit_activity fromisoformat_utc ex_activity None None ''day'' (- 3 / 2)))
       = [''2024-01-03'', ''2024-01-02'', ''2024-01-01'']"
  using ex_activity_spikes_negative
  by (simp add: ex_activity_filter ex_activity_group ex_activity_counts ex_mean
        ex_activity_result)

text \<open>
  C4, amended. With at least 3 windows, a window is in the spike list exactly when its
  edit z-score or its author z-score reaches the threshold. For every threshold that is
  not negative, a window whose edit count and author count both lie below their means
  is not in the spike list.
\<close>

theorem spike_iff_z_score_reaches_threshold:
  assumes "filter_revisions fromisoformat start_datetime end_datetime all_revisions
             = (all_revisions', filtered)"
      and "group_revisions window_size filtered [] = Inr g"
      and "3 \<le> length g"
      and "(k, d) \<in> set g"
  shows "(k \<in> set (spike_windows (snd (analyze_edit_activity fromisoformat all_revisions
                      start_datetime end_datetime window_size z_threshold)))
            \<longleftrightarrow> z_threshold \<le> edit_z g d \<or> z_threshold \<le> editor_z g d)
         \<and> (0 \<le> z_threshold
              \<and> real (edit_count d) < mean (map (\<lambda>(k, d). edit_count d) g)
              \<and> real (card (editors d)) < mean (map (\<lambda>(k, d). card (editors d)) g)
            \<longrightarrow> k \<notin> set (spike_windows (snd (analyze_edit_activity fromisoformat
                      all_revisions start_datetime end_datetime window_size z_threshold))))"
proof -
  let ?res = "snd (analyze_edit_activity fromisoformat all_revisions
                      start_datetime end_datetime window_size z_threshold)"
  from group_filtered [of window_size fromisoformat start_datetime end_datetime all_revisions]
  have ok: "windows_ok window_size filtered g"
    using assms(1,2) by auto
  then have dist: "distinct (map fst g)" by (simp add: windows_ok_def)
  have res: "?res = spike_statistics z_threshold (length filtered) g"
    using assms(1,2) by (simp add: analyze_edit_activity_def)
  have only: "d' = d" if "(k, d') \<in> set g" for d'
    using eq_key_imp_eq_value [OF dist that assms(4)] .
  have iff: "k \<in> set (spike_windows ?res)
               \<longleftrightarrow> z_threshold \<le> edit_z g d \<or> z_threshold \<le> editor_z g d"
  proof -
    have "k \<in> set (spike_windows ?res) \<longleftrightarrow>
            (\<exists>d'. (k, d') \<in> set g
                \<and> (z_threshold \<le> edit_z g d' \<or> z_threshold \<le> editor_z g d'))"
      unfolding res spike_windows_set [OF assms(3)] by simp
    also have "\<dots> \<longleftrightarrow> z_threshold \<le> edit_z g d \<or> z_threshold \<le> editor_z g d"
      using only assms(4) by blast
    finally show ?thesis .
  qed
  have below: "k \<notin> set (spike_windows ?res)"
    if "0 \<le> z_threshold"
      and "real (edit_count d) < mean (map (\<lambda>(k, d). edit_count d) g)"
      and "real (card (editors d)) < mean (map (\<lambda>(k, d). card (editors d)) g)"
  proof -
    have len: "2 \<le> length (map (\<lambda>(k, d). edit_count d) g)"
      "2 \<le> length (map (\<lambda>(k, d). card (editors d)) g)"
      using assms(3) by simp_all
    have "edit_count d \<in> set (map (\<lambda>(k, d). edit_count d) g)"
      using assms(4) by force
    from z_score_below_mean [OF this that(2) len(1)] have "edit_z g d < 0"
      by (simp add: edit_z_def)
    moreover have "card (editors d) \<in> set (map (\<lambda>(k, d). card (editors d)) g)"
      using assms(4) by force
    from z_score_below_mean [OF this that(3) len(2)] have "editor_z g d < 0"
      by (simp add: editor_z_def)
    ultimately show ?thesis using iff that(1) by linarith
  qed
  show ?thesis
  proof (intro conjI impI)
    show "k \<in> set (spike_windows ?res)
            \<longleftrightarrow> z_threshold \<le> edit_z g d \<or> z_threshold \<le> editor_z g d"
      by (rule iff)
  next
    assume "0 \<le> z_threshold
              \<and> real (edit_count d) < mean (map (\<lambda>(k, d). edit_count d) g)
              \<and> real (card (editors d)) < mean (map (\<lambda>(k, d). card (editors d)) g)"
    then show "k \<notin> set (spike_windows ?res)" using below by (elim conjE)
  qed
qed

lemma ex_z_top:
  "edit_z ex_activity_grouped
     \<lparr>edit_count = 3, editors = {''Ann'', ''Bob'', ''Cy''},
      revisions = take 3 ex_activity_stamped\<rparr> = 1"
  by (simp add: edit_z_def ex_edit_counts ex_mean ex_stdev z_score_def)

text \<open>
  With the threshold 1 the day 2024-01-01 is not flagged, and the day 2024-01-03, whose
  z-scores are 1, is.
\<close>

theorem spike_iff_z_score_reaches_threshold_witness:
  "''2024-01-01'' \<notin> set (spike_windows
      (snd (analyze_edit_activity fromisoformat_utc ex_activity None None ''day'' 1)))
   \<and> ''2024-01-03'' \<in> set (spike_windows
      (snd (analyze_edit_activity fromisoformat_utc ex_activity None None ''day'' 1)))"
proof
  let ?d = "\<lparr>edit_count = 1, editors = {''Ann''}, revisions = drop 5 ex_activity_stamped\<rparr>"
  have len: "3 \<le> length ex_activity_grouped" by (simp add: ex_activity_grouped_def)
  have mem: "(''2024-01-01'', ?d) \<in> set ex_activity_grouped"
    by (simp add: ex_activity_grouped_def)
  have pre: "0 \<le> (1::real)
        \<and> real (edit_count ?d) < mean (map (\<lambda>(k, d). edit_count d) ex_activity_grouped)
        \<and> real (card (editors ?d))
            < mean (map (\<lambda>(k, d). card (editors d)) ex_activity_grouped)"
    by (simp add: ex_edit_counts ex_editor_counts ex_mean)
  from spike_iff_z_score_reaches_threshold
    [OF ex_activity_filter ex_activity_group len mem, of 1]
  have "0 \<le> (1::real)
        \<and> real (edit_count ?d) < mean (map (\<lambda>(k, d). edit_count d) ex_activity_grouped)
        \<and> real (card (editors ?d))
            < mean (map (\<lambda>(k, d). card (editors d)) ex_activity_grouped)
        \<longrightarrow> ''2024-01-01'' \<notin> set (spike_windows
      (snd (analyze_edit_activity fromisoformat_utc ex_activity None None ''day'' 1)))"
    by (rule conjunct2)
  from this pre show "''2024-01-01'' \<notin> set (spike_windows
      (snd (analyze_edit_activity fromisoformat_utc ex_activity None None ''day'' 1)))"
    by (rule mp)
next
  let ?d = "\<lparr>edit_count = 3, editors = {''Ann'', ''Bob'', ''Cy''},
             revisions = take 3 ex_activity_stamped\<rparr>"
  have len: "3 \<le> length ex_activity_grouped" by (simp add: ex_activity_grouped_def)
  have mem: "(''2024-01-03'', ?d) \<in> set ex_activity_grouped"
    by (simp add: ex_activity_grouped_def)
  have "1 \<le> edit_z ex_activity_grouped ?d \<or> 1 \<le> editor_z ex_activity_grouped ?d"
    unfolding ex_z_top by simp
  with spike_iff_z_score_reaches_threshold
    [OF ex_activity_filter ex_activity_group len mem, of 1, THEN conjunct1]
  show "''2024-01-03'' \<in> set (spike_windows
      (snd (analyze_edit_activity fromisoformat_utc ex_activity None None ''day'' 1)))"
    by (rule iffD2)
qed

section \<open>Properties of the ranking\<close>

lemma ex_counts:
  "count_user_edits ex_filtered Map.empty = [''Ann'' \<mapsto> 1]"
  by (simp add: ex_filtered_def ex_fetched_def stamp_def mk_rev_def)

lemma ex_current_size: "current_size_of ex_filtered = 100000"
  by (simp add: current_size_of_def ex_filtered_def ex_fetched_def stamp_def mk_rev_def)

lemma ex_scores:
  "calculate_significance_score (ex_filtered ! 0) ex_filtered 0 100000 [''Ann'' \<mapsto> 1]
     = Inr (21003 / 100000)"
  "calculate_significance_score (ex_filtered ! 1) ex_filtered 1 100000 [''Ann'' \<mapsto> 1]
     = Inr (21006 / 100000)"
  by (simp_all add: calculate_significance_score_def size_change_def normalized_size_change_def
        calculate_revert_score_def experience_factor_def discussion_score_def
        discussion_patterns_def lower_def calculate_edit_war_score_def
        ex_filtered_def ex_fetched_def stamp_def mk_rev_def upto.simps)

lemma ex_raw_scores:
  "raw_score ex_filtered 0 = 21003 / 100000" "raw_score ex_filtered 1 = 21006 / 100000"
  using ex_scores by (simp_all add: raw_score_def ex_counts ex_current_size)

lemma ex_rounded: "py_round (21003 / 100000) 3 = 21 / 100" "py_round (21006 / 100000) 3 = 21 / 100"
  by (simp_all add: py_round_def round_half_even_def)

lemma score_revisions_ok:
  assumes "\<forall>ir\<in>set irs. sizediff (snd ir) \<noteq> Null"
  shows "\<exists>scored. score_revisions filtered sz counts thr irs = Inr scored
           \<and> scored_pairs scored =
               map (\<lambda>ir. (snd ir, py_round (score_at filtered sz counts ir) 3))
                 (filter (\<lambda>ir. thr \<le> score_at filtered sz counts ir) irs)"
  using assms
proof (induction irs)
  case Nil
  show ?case by (simp add: scored_pairs_def)
next
  case (Cons ir irs)
  obtain i r where ir: "ir = (i, r)" by (cases ir)
  from Cons.prems have nn: "sizediff r \<noteq> Null" by (simp add: ir)
  then obtain c where c: "size_change r = Inr c"
    by (cases "sizediff r") (simp_all add: size_change_def)
  then obtain s where s: "calculate_significance_score r filtered (int i) sz counts = Inr s"
    by (simp add: calculate_significance_score_def)
  from c obtain fs where fs: "get_significance_factors r filtered (int i) sz counts = Inr fs"
    by (simp add: get_significance_factors_def Let_def)
  from Cons.IH Cons.prems obtain scored where
    sc: "score_revisions filtered sz counts thr irs = Inr scored"
    and pairs: "scored_pairs scored =
               map (\<lambda>ir. (snd ir, py_round (score_at filtered sz counts ir) 3))
                 (filter (\<lambda>ir. thr \<le> score_at filtered sz counts ir) irs)"
    by auto
  have at: "score_at filtered sz counts (i, r) = s" by (simp add: score_at_def s)
  show ?case
  proof (cases "thr \<le> s")
    case True
    then show ?thesis using s fs sc pairs at by (simp add: ir scored_pairs_def)
  next
    case False
    then show ?thesis using s sc pairs at by (simp add: ir)
  qed
qed

lemma enumerate_nth: "enumerate 0 xs = map (\<lambda>i. (i, xs ! i)) [0..<length xs]"
  by (rule nth_equalityI) (simp_all add: nth_enumerate_eq)

lemma sorted_uminus:
  fixes xs :: "real list"
  shows "sorted (map uminus xs) \<longleftrightarrow> sorted_wrt (\<lambda>a b. b \<le> a) xs"
  by (induction xs) auto

lemma sort_desc_sorted:
  "sorted_wrt (\<lambda>a b. b \<le> a)
     (map snd (scored_pairs (sort_key (\<lambda>x. - significance_score x) scored)))"
proof -
  have "sorted (map (\<lambda>x. - significance_score x) (sort_key (\<lambda>x. - significance_score x) scored))"
    by (rule sorted_sort_key)
  then have "sorted (map uminus
      (map snd (scored_pairs (sort_key (\<lambda>x. - significance_score x) scored))))"
    by (simp add: scored_pairs_def comp_def)
  then show ?thesis by (simp only: sorted_uminus)
qed

lemma sort_desc_stable:
  "filter (\<lambda>p. snd p = k) (scored_pairs (sort_key (\<lambda>x. - significance_score x) scored))
     = filter (\<lambda>p. snd p = k) (scored_pairs scored)"
proof -
  have "filter (\<lambda>x. - significance_score x = - k) (sort_key (\<lambda>x. - significance_score x) scored)
        = filter (\<lambda>x. - significance_score x = - k) scored"
    by (rule sort_key_stable)
  then have "map (\<lambda>x. (scored_rev x, significance_score x))
               (filter (\<lambda>x. significance_score x = k)
                  (sort_key (\<lambda>x. - significance_score x) scored))
           = map (\<lambda>x. (scored_rev x, significance_score x))
               (filter (\<lambda>x. significance_score x = k) scored)"
    by simp
  then show ?thesis by (simp add: scored_pairs_def filter_map comp_def)
qed

lemma score_defined:
  assumes "sizediff r \<noteq> Null"
  shows "\<exists>s. calculate_significance_score r filtered i sz counts = Inr s"
proof -
  obtain c where "size_change r = Inr c"
    using assms by (cases "sizediff r") (simp_all add: size_change_def)
  then show ?thesis by (simp add: calculate_significance_score_def)
qed

lemma raw_score_defined:
  assumes "sizediff (filtered ! i) \<noteq> Null"
  shows "calculate_significance_score (filtered ! i) filtered (int i)
           (current_size_of filtered) (count_user_edits filtered Map.empty)
         = Inr (raw_score filtered i)"
  using score_defined [OF assms, of filtered "int i" "current_size_of filtered"
      "count_user_edits filtered Map.empty"]
  by (auto simp: raw_score_def)

lemma scored_filtered:
  assumes "\<forall>r\<in>set filtered. sizediff r \<noteq> Null"
  shows "\<exists>scored. score_revisions filtered (current_size_of filtered)
                     (count_user_edits filtered Map.empty) thr (enumerate 0 filtered)
                   = Inr scored
           \<and> scored_pairs scored =
               map (\<lambda>i. (filtered ! i, py_round (raw_score filtered i) 3))
                 (filter (\<lambda>i. thr \<le> raw_score filtered i) [0..<length filtered])"
proof -
  let ?sz = "current_size_of filtered" and ?cnt = "count_user_edits filtered Map.empty"
  have "\<forall>ir\<in>set (enumerate 0 filtered). sizediff (snd ir) \<noteq> Null"
    using assms by (auto simp: in_set_enumerate_eq)
  from score_revisions_ok [OF this, of filtered ?sz ?cnt thr]
  obtain scored where sc: "score_revisions filtered ?sz ?cnt thr (enumerate 0 filtered) = Inr scored"
    and pairs: "scored_pairs scored =
               map (\<lambda>ir. (snd ir, py_round (score_at filtered ?sz ?cnt ir) 3))
                 (filter (\<lambda>ir. thr \<le> score_at filtered ?sz ?cnt ir) (enumerate 0 filtered))"
    by blast
  have at: "score_at filtered ?sz ?cnt (i, filtered ! i) = raw_score filtered i" for i
    by (simp add: score_at_def raw_score_def)
  have "map (\<lambda>ir. (snd ir, py_round (score_at filtered ?sz ?cnt ir) 3))
                 (filter (\<lambda>ir. thr \<le> score_at filtered ?sz ?cnt ir) (enumerate 0 filtered))
        = map (\<lambda>i. (filtered ! i, py_round (raw_score filtered i) 3))
                 (filter (\<lambda>i. thr \<le> raw_score filtered i) [0..<length filtered])"
    by (simp add: enumerate_nth filter_map comp_def at)
  with sc pairs show ?thesis by simp
qed

lemma scored_pairs_sort:
  "scored_pairs (sort_key (\<lambda>x. - significance_score x) scored)
     = sort_key (\<lambda>p. - snd p) (scored_pairs scored)"
  using map_sort_key [of "\<lambda>x. (scored_rev x, significance_score x)" "\<lambda>p. - snd p" scored]
  by (simp add: scored_pairs_def)

lemma scored_pairs_slice:
  "scored_pairs (slice_to limit xs) = slice_to limit (scored_pairs xs)"
  by (simp add: scored_pairs_def slice_to_def take_map)

lemma ranked_ids_result:
  assumes "filter_revisions fromisoformat start_datetime end_datetime all_revisions
             = (all_revisions', filtered)"
      and "2 \<le> length filtered" and "\<forall>r\<in>set filtered. sizediff r \<noteq> Null"
  shows "ranked_ids (snd (get_significant_revisions fromisoformat all_revisions start_datetime
                            end_datetime limit min_significance))
         = map (\<lambda>p. revid (fst p))
             (slice_to limit (sort_key (\<lambda>p. - snd p)
                (map (\<lambda>i. (filtered ! i, py_round (raw_score filtered i) 3))
                   [i\<leftarrow>[0..<length filtered]. min_significance \<le> raw_score filtered i])))"
proof -
  from scored_filtered [OF assms(3), of min_significance]
  obtain scored where sc: "score_revisions filtered (current_size_of filtered)
                     (count_user_edits filtered Map.empty) min_significance
                     (enumerate 0 filtered) = Inr scored"
    and pairs: "scored_pairs scored =
               map (\<lambda>i. (filtered ! i, py_round (raw_score filtered i) 3))
                 [i\<leftarrow>[0..<length filtered]. min_significance \<le> raw_score filtered i]"
    by blast
  have "ranked_ids (snd (get_significant_revisions fromisoformat all_revisions start_datetime
                            end_datetime limit min_significance))
        = map (\<lambda>p. revid (fst p))
            (scored_pairs (slice_to limit (sort_key (\<lambda>x. - significance_score x) scored)))"
    using assms(1,2) sc
    by (simp add: get_significant_revisions_def ranked_ids_def scored_pairs_def comp_def)
  then show ?thesis by (simp only: scored_pairs_slice scored_pairs_sort pairs)
qed

lemma ex_filtered_facts:
  "2 \<le> length ex_filtered" "\<forall>r\<in>set ex_filtered. sizediff r \<noteq> Null"
  "map revid ex_filtered = [1, 2]"
  by (simp_all add: ex_filtered_def ex_fetched_def stamp_def mk_rev_def)

lemma ex_raw_score_Suc: "raw_score ex_filtered (Suc 0) = 21006 / 100000"
  using ex_raw_scores(2) by simp

lemma ex_passing:
  "[i\<leftarrow>[0..<length ex_filtered]. 1 / 5 \<le> raw_score ex_filtered i] = [0, 1]"
proof -
  have "[0..<length ex_filtered] = [0, 1]" by (simp add: ex_filtered_def upt_rec)
  then show ?thesis by (simp add: ex_raw_scores ex_raw_score_Suc)
qed

lemma ex_ids: "revid (ex_filtered ! 0) = 1" "revid (ex_filtered ! 1) = 2"
  by (simp_all add: ex_filtered_def ex_fetched_def stamp_def mk_rev_def)

lemma ex_ranked_ids:
  "ranked_ids (snd (get_significant_revisions fromisoformat_utc ex_fetched ex_start None
                         50 (1 / 5))) = [1, 2]"
proof -
  have pairs: "map (\<lambda>i. (ex_filtered ! i, py_round (raw_score ex_filtered i) 3)) [0, 1]
                 = [(ex_filtered ! 0, 21 / 100), (ex_filtered ! 1, 21 / 100)]"
    by (simp only: list.map ex_raw_scores ex_rounded)
  have sorted: "sort_key (\<lambda>p. - snd p) [(a, 21 / 100 :: real), (b, 21 / 100)]
                  = [(a, 21 / 100), (b, 21 / 100)]" for a b :: revision
    by simp
  have slice: "slice_to 50 [x, y] = [x, y]" for x y :: "revision \<times> real"
    by (simp add: slice_to_def)
  show ?thesis
    unfolding ranked_ids_result [OF ex_filter ex_filtered_facts(1,2)] ex_passing pairs sorted
      slice
    by (simp only: list.map fst_conv ex_ids)
qed

lemma ex_ranked_ids_negative_limit:
  "ranked_ids (snd (get_significant_revisions fromisoformat_utc ex_fetched ex_start None
                         (- 1) (1 / 5))) = [1]"
proof -
  have pairs: "map (\<lambda>i. (ex_filtered ! i, py_round (raw_score ex_filtered i) 3)) [0, 1]
                 = [(ex_filtered ! 0, 21 / 100), (ex_filtered ! 1, 21 / 100)]"
    by (simp only: list.map ex_raw_scores ex_rounded)
  have sorted: "sort_key (\<lambda>p. - snd p) [(a, 21 / 100 :: real), (b, 21 / 100)]
                  = [(a, 21 / 100), (b, 21 / 100)]" for a b :: revision
    by simp
  have slice: "slice_to (- 1) [x, y] = [x]" for x y :: "revision \<times> real"
    by (simp add: slice_to_def)
  show ?thesis
    unfolding ranked_ids_result [OF ex_filter ex_filtered_facts(1,2)] ex_passing pairs sorted
      slice
    by (simp only: list.map fst_conv ex_ids)
qed

text \<open>
  C1, as stated. Of the example revisions, the two of 3 January pass the start bound.
  Their scores are 0.21003 and 0.21006, both 0.21 when rounded: the result lists
  revision 1 before revision 2, the lower score first. With the limit \<open>-1\<close> the result
  holds one revision, more than the limit.
\<close>

theorem ranking_not_by_score_counterexample:
  "snd (filter_revisions fromisoformat_utc ex_start None ex_fetched) = ex_filtered
   \<and> map revid ex_filtered = [1, 2]
   \<and> raw_score ex_filtered 0 = 21003 / 100000
   \<and> raw_score ex_filtered 1 = 21006 / 100000
   \<and> ranked_ids (snd (get_significant_revisions fromisoformat_utc ex_fetched ex_start None
                         50 (1 / 5))) = [1, 2]
   \<and> ranked_ids (snd (get_significant_revisions fromisoformat_utc ex_fetched ex_start None
                         (- 1) (1 / 5))) = [1]"
proof (intro conjI)
  show "snd (filter_revisions fromisoformat_utc ex_start None ex_fetched) = ex_filtered"
    by (simp add: ex_filter)
qed (rule ex_filtered_facts ex_raw_scores ex_ranked_ids ex_ranked_ids_negative_limit)+

text \<open>
  C1, amended. With fewer than 2 filtered revisions the ranking returns the
  insufficient-data error. With at least 2, none of which stores \<^verbatim>\<open>None\<close> as its size
  change, it computes the score of every filtered revision, retains exactly those whose
  score is at least the threshold, and orders them by the score rounded to 3 decimals,
  descending, revisions of equal rounded score staying in their newest-first order. It
  reports the number of filtered revisions and the number of retained ones, and returns
  the slice \<^verbatim>\<open>[:limit]\<close> of the ordered list: its first \<open>limit\<close> entries when \<open>limit\<close>
  is not negative.
\<close>

theorem ranking_by_rounded_score:
  assumes "filter_revisions fromisoformat start_datetime end_datetime all_revisions
             = (all_revisions', filtered)"
  shows "(length filtered < 2 \<longrightarrow>
            snd (get_significant_revisions fromisoformat all_revisions start_datetime
                   end_datetime limit min_significance) = Inl Insufficient_data)
         \<and> (2 \<le> length filtered \<and> (\<forall>r\<in>set filtered. sizediff r \<noteq> Null) \<longrightarrow>
              (\<forall>i<length filtered.
                  calculate_significance_score (filtered ! i) filtered (int i)
                    (current_size_of filtered) (count_user_edits filtered Map.empty)
                  = Inr (raw_score filtered i))
              \<and> (\<exists>rep ranked.
                    snd (get_significant_revisions fromisoformat all_revisions start_datetime
                           end_datetime limit min_significance) = Inr rep
                    \<and> total_revisions_analyzed rep = length filtered
                    \<and> significant_revisions_found rep
                        = length [i\<leftarrow>[0..<length filtered]. min_significance \<le> raw_score filtered i]
                    \<and> length ranked = significant_revisions_found rep
                    \<and> top_revisions rep = slice_to limit ranked
                    \<and> (0 \<le> limit \<longrightarrow>
                          top_revisions rep = take (nat limit) ranked
                          \<and> length (top_revisions rep) \<le> nat limit)
                    \<and> sorted_wrt (\<lambda>a b. b \<le> a) (map snd (scored_pairs ranked))
                    \<and> (\<forall>k. filter (\<lambda>p. snd p = k) (scored_pairs ranked)
                            = filter (\<lambda>p. snd p = k)
                                (map (\<lambda>i. (filtered ! i, py_round (raw_score filtered i) 3))
                                   [i\<leftarrow>[0..<length filtered].
                                      min_significance \<le> raw_score filtered i]))))"
proof (intro conjI impI)
  assume "length filtered < 2"
  then show "snd (get_significant_revisions fromisoformat all_revisions start_datetime
                   end_datetime limit min_significance) = Inl Insufficient_data"
    using assms by (simp add: get_significant_revisions_def)
next
  assume h: "2 \<le> length filtered \<and> (\<forall>r\<in>set filtered. sizediff r \<noteq> Null)"
  then have nn: "\<forall>r\<in>set filtered. sizediff r \<noteq> Null" and len: "\<not> length filtered < 2"
    by simp_all
  show "\<forall>i<length filtered.
                  calculate_significance_score (filtered ! i) filtered (int i)
                    (current_size_of filtered) (count_user_edits filtered Map.empty)
                  = Inr (raw_score filtered i)"
    using nn raw_score_defined by simp
  let ?passing = "[i\<leftarrow>[0..<length filtered]. min_significance \<le> raw_score filtered i]"
  from scored_filtered [OF nn, of min_significance]
  obtain scored where sc: "score_revisions filtered (current_size_of filtered)
                     (count_user_edits filtered Map.empty) min_significance
                     (enumerate 0 filtered) = Inr scored"
    and pairs: "scored_pairs scored =
               map (\<lambda>i. (filtered ! i, py_round (raw_score filtered i) 3)) ?passing"
    by blast
  let ?ranked = "sort_key (\<lambda>x. - significance_score x) scored"
  let ?rep = "\<lparr>total_revisions_analyzed = length filtered,
               significant_revisions_found = length scored,
               min_significance_threshold = min_significance,
               top_revisions = slice_to limit ?ranked\<rparr>"
  have res: "snd (get_significant_revisions fromisoformat all_revisions start_datetime
                   end_datetime limit min_significance) = Inr ?rep"
    using assms len sc by (simp add: get_significant_revisions_def)
  have found: "length scored = length ?passing"
    using arg_cong [OF pairs, of length] by (simp add: scored_pairs_def)
  have lim: "0 \<le> limit \<longrightarrow>
               top_revisions ?rep = take (nat limit) ?ranked
               \<and> length (top_revisions ?rep) \<le> nat limit"
    by (simp add: slice_to_def)
  have stable: "\<forall>k. filter (\<lambda>p. snd p = k) (scored_pairs ?ranked)
                  = filter (\<lambda>p. snd p = k)
                      (map (\<lambda>i. (filtered ! i, py_round (raw_score filtered i) 3)) ?passing)"
    using sort_desc_stable [of _ scored] pairs by simp
  show "\<exists>rep ranked.
          snd (get_significant_revisions fromisoformat all_revisions start_datetime
                 end_datetime limit min_significance) = Inr rep
          \<and> total_revisions_analyzed rep = length filtered
          \<and> significant_revisions_found rep = length ?passing
          \<and> length ranked = significant_revisions_found rep
          \<and> top_revisions rep = slice_to limit ranked
          \<and> (0 \<le> limit \<longrightarrow>
                top_revisions rep = take (nat limit) ranked
                \<and> length (top_revisions rep) \<le> nat limit)
          \<and> sorted_wrt (\<lambda>a b. b \<le> a) (map snd (scored_pairs ranked))
          \<and> (\<forall>k. filter (\<lambda>p. snd p = k) (scored_pairs ranked)
                  = filter (\<lambda>p. snd p = k)
                      (map (\<lambda>i. (filtered ! i, py_round (raw_score filtered i) 3)) ?passing))"
  proof (intro exI [of _ ?rep] exI [of _ ?ranked] conjI)
    show "snd (get_significant_revisions fromisoformat all_revisions start_datetime
                 end_datetime limit min_significance) = Inr ?rep" by (rule res)
    show "total_revisions_analyzed ?rep = length filtered" by simp
    show "significant_revisions_found ?rep = length ?passing" using found by simp
    show "length ?ranked = significant_revisions_found ?rep" by simp
    show "top_revisions ?rep = slice_to limit ?ranked" by simp
    show "0 \<le> limit \<longrightarrow>
                top_revisions ?rep = take (nat limit) ?ranked
                \<and> length (top_revisions ?rep) \<le> nat limit" by (rule lim)
    show "sorted_wrt (\<lambda>a b. b \<le> a) (map snd (scored_pairs ?ranked))"
      by (rule sort_desc_sorted)
    show "\<forall>k. filter (\<lambda>p. snd p = k) (scored_pairs ?ranked)
                  = filter (\<lambda>p. snd p = k)
                      (map (\<lambda>i. (filtered ! i, py_round (raw_score filtered i) 3)) ?passing)"
      by (rule stable)
  qed
qed

lemma parse_ex_two: "fromisoformat_utc (replace_Z ''2024-01-03T14:00:00Z'') = Some 63839887200"
  by (simp add: fromisoformat_utc_def replace_Z_def digit_val_def ymd2ord_def
        days_before_month_def days_in_month_def is_leap_def)

lemma ex_filter_one:
  "filter_revisions fromisoformat_utc (Some ''2024-01-03T14:00:00Z'') None ex_fetched =
     ([stamp 63839890800 (ex_fetched ! 0), ex_fetched ! 1, ex_fetched ! 2],
      [stamp 63839890800 (ex_fetched ! 0)])"
  by (simp add: ex_fetched_def mk_rev_def stamp_def
        retained_time_def after_start_def before_end_def parse_ex parse_ex_two)

text \<open>
  Both revisions of 3 January reach the threshold 0.2. With a start bound at 14:00 only
  one revision is left, which is not enough.
\<close>

theorem ranking_by_rounded_score_witness:
  "(\<exists>rep. snd (get_significant_revisions fromisoformat_utc ex_fetched ex_start None 50 (1 / 5))
             = Inr rep
          \<and> total_revisions_analyzed rep = 2 \<and> significant_revisions_found rep = 2)
   \<and> snd (get_significant_revisions fromisoformat_utc ex_fetched
             (Some ''2024-01-03T14:00:00Z'') None 50 (1 / 5)) = Inl Insufficient_data"
proof
  have pre: "2 \<le> length ex_filtered \<and> (\<forall>r\<in>set ex_filtered. sizediff r \<noteq> Null)"
    using ex_filtered_facts(1,2) by (rule conjI)
  note T = ranking_by_rounded_score [OF ex_filter, of 50 "1 / 5", THEN conjunct2, THEN mp,
      OF pre, THEN conjunct2]
  then obtain rep where r: "snd (get_significant_revisions fromisoformat_utc ex_fetched ex_start
                          None 50 (1 / 5)) = Inr rep"
    and t: "total_revisions_analyzed rep = length ex_filtered"
    and f: "significant_revisions_found rep
           = length [i\<leftarrow>[0..<length ex_filtered]. 1 / 5 \<le> raw_score ex_filtered i]"
    by (elim exE conjE)
  have "total_revisions_analyzed rep = 2" using t by (simp add: ex_filtered_def)
  moreover have "significant_revisions_found rep = 2" using f unfolding ex_passing by simp
  ultimately show "\<exists>rep. snd (get_significant_revisions fromisoformat_utc ex_fetched ex_start
                            None 50 (1 / 5)) = Inr rep
          \<and> total_revisions_analyzed rep = 2 \<and> significant_revisions_found rep = 2"
    using r by (intro exI [of _ rep] conjI)
next
  have "length [stamp 63839890800 (ex_fetched ! 0)] < 2" by simp
  with ranking_by_rounded_score [OF ex_filter_one, of 50 "1 / 5", THEN conjunct1]
  show "snd (get_significant_revisions fromisoformat_utc ex_fetched
             (Some ''2024-01-03T14:00:00Z'') None 50 (1 / 5)) = Inl Insufficient_data"
    by (rule mp)
qed

text \<open>
  Without the start bound the oldest fetched revision is scored too. Its size change is
  \<^verbatim>\<open>None\<close>, the scorer raises TypeError, and the operation returns its error result.
\<close>

lemma ranking_fails_on_stored_none:
  "snd (get_significant_revisions fromisoformat_utc ex_fetched None None 50 (1 / 5))
     = Inl TypeError"
proof -
  have e: "enumerate 0 ex_all = [(0, ex_all ! 0), (1, ex_all ! 1), (2, ex_all ! 2)]"
    by (simp add: ex_all_def ex_filtered_def enumerate_simps)
  have n: "size_change (ex_all ! 2) = Inl TypeError"
    by (simp add: ex_all_def ex_filtered_def ex_fetched_def stamp_def mk_rev_def size_change_def)
  have s0: "sizediff (ex_all ! 0) \<noteq> Null" and s1: "sizediff (ex_all ! 1) \<noteq> Null"
    by (simp_all add: ex_all_def ex_filtered_def ex_fetched_def stamp_def mk_rev_def)
  obtain a where a: "calculate_significance_score (ex_all ! 0) ex_all (int 0)
      (current_size_of ex_all) (count_user_edits ex_all Map.empty) = Inr a"
    using score_defined [OF s0] by blast
  obtain b where b: "calculate_significance_score (ex_all ! 1) ex_all (int 1)
      (current_size_of ex_all) (count_user_edits ex_all Map.empty) = Inr b"
    using score_defined [OF s1] by blast
  obtain fa where fa: "get_significance_factors (ex_all ! 0) ex_all (int 0)
      (current_size_of ex_all) (count_user_edits ex_all Map.empty) = Inr fa"
    using s0 by (cases "sizediff (ex_all ! 0)")
      (simp_all add: get_significance_factors_def size_change_def Let_def)
  obtain fb where fb: "get_significance_factors (ex_all ! 1) ex_all (int 1)
      (current_size_of ex_all) (count_user_edits ex_all Map.empty) = Inr fb"
    using s1 by (cases "sizediff (ex_all ! 1)")
      (simp_all add: get_significance_factors_def size_change_def Let_def)
  have c: "calculate_significance_score (ex_all ! 2) ex_all (int 2)
      (current_size_of ex_all) (count_user_edits ex_all Map.empty) = Inl TypeError"
    using n by (simp add: calculate_significance_score_def)
  have "score_revisions ex_all (current_size_of ex_all) (count_user_edits ex_all Map.empty)
          (1 / 5) (enumerate 0 ex_all) = Inl TypeError"
    unfolding e using a b c fa fb by simp
  moreover have "\<not> length ex_all < 2" by (simp add: ex_all_def ex_filtered_def)
  ultimately show ?thesis
    by (simp add: get_significant_revisions_def ex_filter_all')
qed

section \<open>The size change of the oldest fetched revision\<close>

lemma add_sizediff_last:
  "add_sizediff revs = Some revs' \<Longrightarrow> revs \<noteq> [] \<Longrightarrow> sizediff (last revs') = Null"
proof (induction revs arbitrary: revs' rule: add_sizediff.induct)
  case 1
  then show ?case by simp
next
  case (2 r)
  then show ?case by auto
next
  case (3 r nxt revs)
  from "3.prems"(1) obtain s s' rest where
    sr: "size_bytes r = Some s" and sn: "size_bytes nxt = Some s'"
    and rest: "add_sizediff (nxt # revs) = Some rest"
    and eq: "revs' = r\<lparr>sizediff := Delta (s - s')\<rparr> # rest"
    by (auto split: option.splits)
  have "sizediff (last rest) = Null"
    using "3.IH" [OF refl sr sn rest] by simp
  moreover have "rest \<noteq> []" using rest by (cases revs) (auto split: option.splits)
  ultimately show ?case using eq by simp
qed

lemma ex_fetched_annotated:
  "add_sizediff (map (\<lambda>r. r\<lparr>sizediff := Missing\<rparr>) ex_fetched) = Some ex_fetched"
  by (simp add: ex_fetched_def mk_rev_def)

end
